theory Spec2Isabelle
  imports Complex_Main
begin

section \<open>The Euler-operator kernel (namespace SketchyKernel)\<close>

text \<open>
  The kernel of \<^verbatim>\<open>winged_edge.cpp\<close> keeps three vectors of shared pointers to
  mutually referring \<^verbatim>\<open>Vertex\<close>, \<^verbatim>\<open>Edge\<close> and \<^verbatim>\<open>Face\<close> structs. The model
  is an explicit store: every object ever made by \<^verbatim>\<open>make_shared\<close> sits in a
  growing list, its address is its index there, and a shared pointer is an
  \<open>option\<close> of an address (\<open>None\<close> is \<^verbatim>\<open>nullptr\<close>). The three vectors of the class
  hold addresses. An object erased from its vector stays in the store, as it
  does in C++ while some other object still points at it.

  \<^verbatim>\<open>Point3D\<close> is three doubles that the kernel stores and hands back and never
  computes with; its type stays a parameter \<open>'p\<close>. The \<^verbatim>\<open>int\<close> counters are
  unbounded integers: a wrap-around needs more than two thousand million objects.
\<close>

type_synonym vref = nat
type_synonym eref = nat
type_synonym fref = nat

record 'p Vertex =
  v_id :: int
  coords :: 'p
  v_edge :: "eref option"

record Edge =
  e_id :: int
  v1 :: "vref option"
  v2 :: "vref option"
  f1 :: "fref option"
  f2 :: "fref option"
  p1_f1 :: "eref option"
  n1_f1 :: "eref option"
  p2_f2 :: "eref option"
  n2_f2 :: "eref option"

record Face =
  f_id :: int
  f_edge :: "eref option"

record 'p WingedEdgeKernel =
  vstore :: "'p Vertex list"
  estore :: "Edge list"
  fstore :: "Face list"
  vertices :: "vref list"
  edges :: "eref list"
  faces :: "fref list"
  next_v_id :: int
  next_e_id :: int
  next_f_id :: int

text \<open>\<^verbatim>\<open>std::invalid_argument\<close> is the only exception the kernel throws.\<close>

datatype error = InvalidArgument

definition empty_kernel :: "'p WingedEdgeKernel" where
  "empty_kernel =
     \<lparr>vstore = [], estore = [], fstore = [], vertices = [], edges = [], faces = [],
      next_v_id = 1, next_e_id = 1, next_f_id = 1\<rparr>"

text \<open>The constructors \<^verbatim>\<open>Vertex(id, coords)\<close>, \<^verbatim>\<open>Edge(id)\<close>, \<^verbatim>\<open>Face(id)\<close>.\<close>

definition new_Vertex :: "int \<Rightarrow> 'p \<Rightarrow> 'p Vertex" where
  "new_Vertex i c = \<lparr>v_id = i, coords = c, v_edge = None\<rparr>"

definition new_Edge :: "int \<Rightarrow> Edge" where
  "new_Edge i =
     \<lparr>e_id = i, v1 = None, v2 = None, f1 = None, f2 = None,
      p1_f1 = None, n1_f1 = None, p2_f2 = None, n2_f2 = None\<rparr>"

definition new_Face :: "int \<Rightarrow> Face" where
  "new_Face i = \<lparr>f_id = i, f_edge = None\<rparr>"

text \<open>Writes through a pointer: the object at the address is replaced.\<close>

definition upd_vertex ::
  "'p WingedEdgeKernel \<Rightarrow> vref \<Rightarrow> ('p Vertex \<Rightarrow> 'p Vertex) \<Rightarrow> 'p WingedEdgeKernel" where
  "upd_vertex k a g = k\<lparr>vstore := (vstore k)[a := g (vstore k ! a)]\<rparr>"

definition upd_edge ::
  "'p WingedEdgeKernel \<Rightarrow> eref \<Rightarrow> (Edge \<Rightarrow> Edge) \<Rightarrow> 'p WingedEdgeKernel" where
  "upd_edge k a g = k\<lparr>estore := (estore k)[a := g (estore k ! a)]\<rparr>"

definition upd_face ::
  "'p WingedEdgeKernel \<Rightarrow> fref \<Rightarrow> (Face \<Rightarrow> Face) \<Rightarrow> 'p WingedEdgeKernel" where
  "upd_face k a g = k\<lparr>fstore := (fstore k)[a := g (fstore k ! a)]\<rparr>"

text \<open>
  \<^verbatim>\<open>make_shared<T>(next_id++)\<close> followed by \<^verbatim>\<open>push_back\<close>: the new object gets the
  first unused address, the vector gets that address, the counter moves on.
\<close>

definition alloc_vertex :: "'p WingedEdgeKernel \<Rightarrow> 'p \<Rightarrow> vref \<times> 'p WingedEdgeKernel" where
  "alloc_vertex k c =
     (length (vstore k),
      k\<lparr>vstore := vstore k @ [new_Vertex (next_v_id k) c],
        vertices := vertices k @ [length (vstore k)],
        next_v_id := next_v_id k + 1\<rparr>)"

definition alloc_face :: "'p WingedEdgeKernel \<Rightarrow> fref \<times> 'p WingedEdgeKernel" where
  "alloc_face k =
     (length (fstore k),
      k\<lparr>fstore := fstore k @ [new_Face (next_f_id k)],
        faces := faces k @ [length (fstore k)],
        next_f_id := next_f_id k + 1\<rparr>)"

text \<open>
  In \<^verbatim>\<open>mev\<close> and \<^verbatim>\<open>mef\<close> the edge is built and filled in before it is pushed;
  \<open>alloc_edge\<close> takes the filled-in struct.
\<close>

definition alloc_edge :: "'p WingedEdgeKernel \<Rightarrow> (Edge \<Rightarrow> Edge) \<Rightarrow> eref \<times> 'p WingedEdgeKernel" where
  "alloc_edge k init =
     (length (estore k),
      k\<lparr>estore := estore k @ [init (new_Edge (next_e_id k))],
        edges := edges k @ [length (estore k)],
        next_e_id := next_e_id k + 1\<rparr>)"

subsection \<open>MVSF and MEV\<close>

definition mvsf :: "'p WingedEdgeKernel \<Rightarrow> 'p \<Rightarrow> vref \<times> 'p WingedEdgeKernel" where
  "mvsf k c =
     (let (vertex, k1) = alloc_vertex k c;
          (face, k2) = alloc_face k1
      in (vertex, k2))"

text \<open>
  \<^verbatim>\<open>mev\<close>, statement by statement. The two null checks come first and throw
  before anything is written. In the second wiring branch \<^verbatim>\<open>from_vertex->edge\<close>
  is not null (it was filled just above if it had been), which is why the \<open>None\<close>
  case of the last \<open>case\<close> is never taken from a state of the C++ program.
\<close>

definition mev ::
  "'p WingedEdgeKernel \<Rightarrow> vref option \<Rightarrow> 'p \<Rightarrow> fref option
     \<Rightarrow> (error + eref) \<times> 'p WingedEdgeKernel" where
  "mev k from_vertex to_coords on_face =
     (case from_vertex of
        None \<Rightarrow> (Inl InvalidArgument, k)
      | Some u \<Rightarrow>
     (case on_face of
        None \<Rightarrow> (Inl InvalidArgument, k)
      | Some f \<Rightarrow>
       (let (w, k1) = alloc_vertex k to_coords;
            (e, k2) = alloc_edge k1
                        (\<lambda>E. E\<lparr>v1 := Some u, v2 := Some w, f1 := Some f, f2 := Some f\<rparr>);
            k3 = (if v_edge (vstore k2 ! u) = None
                  then upd_vertex k2 u (\<lambda>V. V\<lparr>v_edge := Some e\<rparr>) else k2);
            k4 = upd_vertex k3 w (\<lambda>V. V\<lparr>v_edge := Some e\<rparr>);
            k5 = (if f_edge (fstore k4 ! f) = None
                  then upd_face k4 f (\<lambda>F. F\<lparr>f_edge := Some e\<rparr>) else k4);
            k6 = (case v_edge (vstore k5 ! u) of
                    None \<Rightarrow> k5
                  | Some prev_edge \<Rightarrow>
                      if prev_edge = e then
                        upd_edge k5 e (\<lambda>E. E\<lparr>p1_f1 := Some e, n1_f1 := Some e,
                                               p2_f2 := Some e, n2_f2 := Some e\<rparr>)
                      else
                        (let k5a = upd_edge k5 e
                                     (\<lambda>E. E\<lparr>p1_f1 := Some prev_edge,
                                            n1_f1 := n1_f1 (estore k5 ! prev_edge)\<rparr>);
                             k5b = (if v2 (estore k5a ! prev_edge) = Some u
                                    then upd_edge k5a prev_edge (\<lambda>E. E\<lparr>n2_f2 := Some e\<rparr>)
                                    else upd_edge k5a prev_edge (\<lambda>E. E\<lparr>n1_f1 := Some e\<rparr>))
                         in upd_edge k5b e (\<lambda>E. E\<lparr>p2_f2 := Some e, n2_f2 := Some e\<rparr>)))
        in (Inr e, k6))))"

subsection \<open>MEF and KEF\<close>

text \<open>
  \<^verbatim>\<open>mef\<close>: the parameters \<^verbatim>\<open>v1\<close>, \<^verbatim>\<open>v2\<close> of the source are \<open>a\<close>, \<open>b\<close> here
  (\<open>v1\<close>, \<open>v2\<close> name the fields of an edge). The new face is made after the new
  edge and before either is pushed, so the edge is filled in with the address
  the face is about to get. Nothing but the new edge and the new face is
  written.
\<close>

definition mef ::
  "'p WingedEdgeKernel \<Rightarrow> vref option \<Rightarrow> vref option \<Rightarrow> fref option
     \<Rightarrow> (error + eref) \<times> 'p WingedEdgeKernel" where
  "mef k a b face =
     (case (a, b, face) of
        (Some va, Some vb, Some f) \<Rightarrow>
          if va = vb then (Inl InvalidArgument, k)
          else
            (let new_face = length (fstore k);
                 (e, k1) = alloc_edge k
                             (\<lambda>E. E\<lparr>v1 := Some va, v2 := Some vb,
                                    f1 := Some f, f2 := Some new_face\<rparr>);
                 (nf, k2) = alloc_face k1;
                 k3 = upd_face k2 nf (\<lambda>F. F\<lparr>f_edge := Some e\<rparr>);
                 k4 = (case v_edge (vstore k3 ! va) of
                         None \<Rightarrow> k3
                       | Some v1_edge \<Rightarrow>
                           upd_edge k3 e (\<lambda>E. E\<lparr>p1_f1 := Some v1_edge, n1_f1 := Some v1_edge\<rparr>));
                 k5 = (case v_edge (vstore k4 ! vb) of
                         None \<Rightarrow> k4
                       | Some v2_edge \<Rightarrow>
                           upd_edge k4 e (\<lambda>E. E\<lparr>p2_f2 := Some v2_edge, n2_f2 := Some v2_edge\<rparr>))
             in (Inr e, k5))
      | _ \<Rightarrow> (Inl InvalidArgument, k))"

text \<open>
  The sweep of \<^verbatim>\<open>kef\<close> over the remaining edges:
  \<^verbatim>\<open>if (e->f1 == f2) e->f1 = f1; if (e->f2 == f2) e->f2 = f1;\<close>
  with \<open>dead\<close> the face merged away and \<open>surv\<close> the surviving one.
\<close>

definition rewrite_face :: "fref \<Rightarrow> fref \<Rightarrow> Edge \<Rightarrow> Edge" where
  "rewrite_face dead surv E =
     (let E1 = (if f1 E = Some dead then E\<lparr>f1 := Some surv\<rparr> else E)
      in if f2 E1 = Some dead then E1\<lparr>f2 := Some surv\<rparr> else E1)"

definition kef ::
  "'p WingedEdgeKernel \<Rightarrow> eref option \<Rightarrow> (error + fref) \<times> 'p WingedEdgeKernel" where
  "kef k edge =
     (case edge of
        None \<Rightarrow> (Inl InvalidArgument, k)
      | Some e \<Rightarrow>
         (case (f1 (estore k ! e), f2 (estore k ! e)) of
            (Some face1, Some face2) \<Rightarrow>
              (let k1 = k\<lparr>edges := removeAll e (edges k)\<rparr>;
                   k2 = fold (\<lambda>x s. upd_edge s x (rewrite_face face2 face1)) (edges k1) k1;
                   k3 = k2\<lparr>faces := removeAll face2 (faces k2)\<rparr>
               in (Inr face1, k3))
          | _ \<Rightarrow> (Inl InvalidArgument, k)))"

subsection \<open>Navigation\<close>

text \<open>
  The \<^verbatim>\<open>do ... while\<close> loop of \<^verbatim>\<open>getIncidentEdges\<close>. \<open>visited\<close> is the
  \<^verbatim>\<open>unordered_set<int>\<close> of edge ids: an id is inserted only after \<^verbatim>\<open>count\<close>
  has found it absent, so the list holds every id once and its length is
  \<^verbatim>\<open>visited.size()\<close>. One call of \<open>gie_loop\<close> is one pass through the body, from
  the test of \<open>visited\<close> to the \<^verbatim>\<open>while\<close> condition.
\<close>

function gie_loop ::
  "'p WingedEdgeKernel \<Rightarrow> vref \<Rightarrow> eref \<Rightarrow> eref \<Rightarrow> int list \<Rightarrow> eref list \<Rightarrow> eref list" where
  "gie_loop k v start_edge current_edge visited result =
     (if e_id (estore k ! current_edge) \<in> set visited then result
      else
        (let visited' = e_id (estore k ! current_edge) # visited;
             result' = result @ [current_edge];
             E = estore k ! current_edge
         in if v1 E = Some v \<or> v2 E = Some v then
              (case (if v1 E = Some v then n1_f1 E else n2_f2 E) of
                 None \<Rightarrow> result'
               | Some nxt \<Rightarrow>
                   if length (edges k) < length visited' then result'
                   else if nxt \<noteq> start_edge
                        then gie_loop k v start_edge nxt visited' result'
                        else result')
            else result'))"
  by pat_completeness auto
termination
  by (relation "measure (\<lambda>(k, v, s, c, visited, r). length (edges k) + 1 - length visited)") auto

definition getIncidentEdges :: "'p WingedEdgeKernel \<Rightarrow> vref option \<Rightarrow> eref list" where
  "getIncidentEdges k v =
     (case v of
        None \<Rightarrow> []
      | Some a \<Rightarrow>
         (case v_edge (vstore k ! a) of
            None \<Rightarrow> []
          | Some start_edge \<Rightarrow> gie_loop k a start_edge start_edge [] []))"

text \<open>\<^verbatim>\<open>getFaceBoundary\<close> is the same loop steered by the face slots.\<close>

function gfb_loop ::
  "'p WingedEdgeKernel \<Rightarrow> fref \<Rightarrow> eref \<Rightarrow> eref \<Rightarrow> int list \<Rightarrow> eref list \<Rightarrow> eref list" where
  "gfb_loop k f start_edge current_edge visited result =
     (if e_id (estore k ! current_edge) \<in> set visited then result
      else
        (let visited' = e_id (estore k ! current_edge) # visited;
             result' = result @ [current_edge];
             E = estore k ! current_edge
         in if f1 E = Some f \<or> f2 E = Some f then
              (case (if f1 E = Some f then n1_f1 E else n2_f2 E) of
                 None \<Rightarrow> result'
               | Some nxt \<Rightarrow>
                   if length (edges k) < length visited' then result'
                   else if nxt \<noteq> start_edge
                        then gfb_loop k f start_edge nxt visited' result'
                        else result')
            else result'))"
  by pat_completeness auto
termination
  by (relation "measure (\<lambda>(k, f, s, c, visited, r). length (edges k) + 1 - length visited)") auto

definition getFaceBoundary :: "'p WingedEdgeKernel \<Rightarrow> fref option \<Rightarrow> eref list" where
  "getFaceBoundary k f =
     (case f of
        None \<Rightarrow> []
      | Some a \<Rightarrow>
         (case f_edge (fstore k ! a) of
            None \<Rightarrow> []
          | Some start_edge \<Rightarrow> gfb_loop k a start_edge start_edge [] []))"

subsection \<open>KFMRH\<close>

text \<open>
  \<^verbatim>\<open>kfmrh\<close> erases the hole face from the face vector first and then walks its
  boundary (the walk does not look at the face vector), moving the slots of
  the edges it finds to the outer face.
\<close>

definition kfmrh ::
  "'p WingedEdgeKernel \<Rightarrow> fref option \<Rightarrow> fref option \<Rightarrow> (error + unit) \<times> 'p WingedEdgeKernel" where
  "kfmrh k hole_face outer_face =
     (case (hole_face, outer_face) of
        (Some h, Some outer) \<Rightarrow>
          (let k1 = k\<lparr>faces := removeAll h (faces k)\<rparr>;
               boundary = getFaceBoundary k1 (Some h);
               k2 = fold (\<lambda>x s. upd_edge s x (rewrite_face h outer)) boundary k1
           in (Inr (), k2))
      | _ \<Rightarrow> (Inl InvalidArgument, k))"

subsection \<open>Counts, and what a state of the C++ program always satisfies\<close>

definition getVertexCount :: "'p WingedEdgeKernel \<Rightarrow> nat" where
  "getVertexCount k = length (vertices k)"

definition getEdgeCount :: "'p WingedEdgeKernel \<Rightarrow> nat" where
  "getEdgeCount k = length (edges k)"

definition getFaceCount :: "'p WingedEdgeKernel \<Rightarrow> nat" where
  "getFaceCount k = length (faces k)"

text \<open>
  A C++ pointer that is not null points at an object that exists. In the
  store this reads: every address held in a vector or in a field lies below
  the length of the store it points into. \<open>closed_store\<close> is that property
  of the representation; it says nothing about the topology.
\<close>

definition ref_ok :: "nat \<Rightarrow> nat option \<Rightarrow> bool" where
  "ref_ok n r = (case r of None \<Rightarrow> True | Some a \<Rightarrow> a < n)"

text \<open>The references of one edge, against the three store lengths.\<close>

definition edge_ok :: "nat \<Rightarrow> nat \<Rightarrow> nat \<Rightarrow> Edge \<Rightarrow> bool" where
  "edge_ok nv ne nf E = (ref_ok nv (v1 E) \<and> ref_ok nv (v2 E) \<and>
                        ref_ok nf (f1 E) \<and> ref_ok nf (f2 E) \<and>
                        ref_ok ne (p1_f1 E) \<and> ref_ok ne (n1_f1 E) \<and>
                        ref_ok ne (p2_f2 E) \<and> ref_ok ne (n2_f2 E))"

definition closed_store :: "'p WingedEdgeKernel \<Rightarrow> bool" where
  "closed_store k =
     (let nv = length (vstore k); ne = length (estore k); nf = length (fstore k)
      in list_all (\<lambda>a. a < nv) (vertices k) \<and>
         list_all (\<lambda>a. a < ne) (edges k) \<and>
         list_all (\<lambda>a. a < nf) (faces k) \<and>
         list_all (\<lambda>V. ref_ok ne (v_edge V)) (vstore k) \<and>
         list_all (edge_ok nv ne nf) (estore k) \<and>
         list_all (\<lambda>F. ref_ok ne (f_edge F)) (fstore k))"

text \<open>
  Each vector holds an object once: objects enter a vector only by
  \<^verbatim>\<open>push_back\<close> of a freshly made one.
\<close>

definition pools_distinct :: "'p WingedEdgeKernel \<Rightarrow> bool" where
  "pools_distinct k = (distinct (vertices k) \<and> distinct (edges k) \<and> distinct (faces k))"

text \<open>
  The states reached from the empty kernel by the five operators, called with
  handles of objects that exist (alive or not: a handle the caller still
  holds keeps its object in the store).
\<close>

inductive euler_reachable :: "'p WingedEdgeKernel \<Rightarrow> bool" where
  start: "euler_reachable empty_kernel"
| by_mvsf: "euler_reachable k \<Longrightarrow> euler_reachable (snd (mvsf k c))"
| by_mev: "euler_reachable k \<Longrightarrow> u < length (vstore k) \<Longrightarrow> f < length (fstore k) \<Longrightarrow>
     euler_reachable (snd (mev k (Some u) p (Some f)))"
| by_mef: "euler_reachable k \<Longrightarrow> a < length (vstore k) \<Longrightarrow> b < length (vstore k) \<Longrightarrow>
     f < length (fstore k) \<Longrightarrow> euler_reachable (snd (mef k (Some a) (Some b) (Some f)))"
| by_kef: "euler_reachable k \<Longrightarrow> e < length (estore k) \<Longrightarrow>
     euler_reachable (snd (kef k (Some e)))"
| by_kfmrh: "euler_reachable k \<Longrightarrow> h < length (fstore k) \<Longrightarrow> outer < length (fstore k) \<Longrightarrow>
     euler_reachable (snd (kfmrh k (Some h) (Some outer)))"

text \<open>
  The number of face slots that refer to a face, over the live edges; an edge
  with both slots on the face counts twice.
\<close>

definition face_slot_count :: "'p WingedEdgeKernel \<Rightarrow> fref \<Rightarrow> nat" where
  "face_slot_count k f =
     (\<Sum>x\<leftarrow>edges k. (if f1 (estore k ! x) = Some f then 1 else 0) +
                     (if f2 (estore k ! x) = Some f then 1 else 0))"

subsection \<open>The meshes of the unit tests\<close>

text \<open>
  Positions play no part in what follows. The examples carry integer triples;
  where a test has a coordinate with a half in it, the example has the
  doubled triple.
\<close>

type_synonym point = "int \<times> int \<times> int"

text \<open>\<^verbatim>\<open>mvsf(0,0,0)\<close>: vertex 0 and face 0.\<close>

definition seed :: "point WingedEdgeKernel" where
  "seed = snd (mvsf empty_kernel (0, 0, 0))"

text \<open>Test \<^verbatim>\<open>MEV_CreatesEdgeAndVertex\<close>: one spur, edge 0 from vertex 0 to vertex 1.\<close>

definition spur :: "point WingedEdgeKernel" where
  "spur = snd (mev seed (Some 0) (1, 0, 0) (Some 0))"

text \<open>Test \<^verbatim>\<open>MEV_BuildsLineString\<close>: a second edge from vertex 1 to vertex 2.\<close>

definition line_string :: "point WingedEdgeKernel" where
  "line_string = snd (mev spur (Some 1) (2, 0, 0) (Some 0))"

text \<open>Test \<^verbatim>\<open>MEF_SplitsFace\<close>: three edges round a square, before the closing \<^verbatim>\<open>mef\<close>.\<close>

definition open_square :: "point WingedEdgeKernel" where
  "open_square =
     snd (mev (snd (mev spur (Some 1) (1, 1, 0) (Some 0))) (Some 2) (0, 1, 0) (Some 0))"

text \<open>The same after \<^verbatim>\<open>mef(v4, v1, face)\<close>: edge 3 and face 1 are new.\<close>

definition closed_square :: "point WingedEdgeKernel" where
  "closed_square = snd (mef open_square (Some 3) (Some 0) (Some 0))"

text \<open>Two seeds: vertices 0 and 1, faces 0 and 1, no edge (test \<^verbatim>\<open>MVSF_MultipleCalls\<close>).\<close>

definition two_seeds :: "point WingedEdgeKernel" where
  "two_seeds = snd (mvsf seed (1, 1, 1))"

text \<open>The closed square with one more \<^verbatim>\<open>mev\<close>, from vertex 0 into the new face 1: edge 4.\<close>

definition square_with_spur :: "point WingedEdgeKernel" where
  "square_with_spur = snd (mev closed_square (Some 0) (5, 5, 0) (Some 1))"

text \<open>Three \<^verbatim>\<open>mev\<close> from vertex 0 (as in test \<^verbatim>\<open>GetIncidentEdges_SingleVertex\<close>, once more).\<close>

definition star3 :: "point WingedEdgeKernel" where
  "star3 =
     snd (mev (snd (mev spur (Some 0) (0, 1, 0) (Some 0))) (Some 0) (0, 0, 1) (Some 0))"

text \<open>
  A state with a broken invariant, reached as the unit tests reach theirs, by
  a write to a public field: \<^verbatim>\<open>e2->n1_f1 = e3\<close> on \<open>star3\<close> (edges 1 and 2 here).
\<close>

definition star3_rewired :: "point WingedEdgeKernel" where
  "star3_rewired = upd_edge star3 1 (\<lambda>E. E\<lparr>n1_f1 := Some 2\<rparr>)"

text \<open>The ids of a list of edges.\<close>

definition edge_ids :: "'p WingedEdgeKernel \<Rightarrow> eref list \<Rightarrow> int list" where
  "edge_ids k xs = map (\<lambda>x. e_id (estore k ! x)) xs"

section \<open>The polygon facade (namespace sketchy::kernel)\<close>

text \<open>
  \<^verbatim>\<open>Mesh\<close> owns its objects through vectors of \<^verbatim>\<open>unique_ptr\<close> and never erases
  one, so here the vector is the store: a raw pointer \<^verbatim>\<open>Vertex*\<close>, \<^verbatim>\<open>Edge*\<close> or
  \<^verbatim>\<open>Face*\<close> is the index of the object in its vector, \<open>None\<close> is \<^verbatim>\<open>nullptr\<close>.
  The position of a vertex stays a parameter \<open>'p\<close>. The cached \<^verbatim>\<open>normal\<close> of a
  face is not a field of \<open>MFace\<close>: \<^verbatim>\<open>compute_normal\<close> writes that one field and
  nothing else, and no function of the mesh reads it. The value it stores is
  defined in the section on face normals.
\<close>

record 'p MVertex =
  position :: 'p
  m_edge :: "eref option"

record MEdge =
  m_v1 :: "vref option"
  m_v2 :: "vref option"
  left_face :: "fref option"
  right_face :: "fref option"
  left_prev :: "eref option"
  left_next :: "eref option"
  right_prev :: "eref option"
  right_next :: "eref option"

record MFace =
  face_edge :: "eref option"

record 'p Mesh =
  m_vertices :: "'p MVertex list"
  m_edges :: "MEdge list"
  m_faces :: "MFace list"

definition empty_mesh :: "'p Mesh" where
  "empty_mesh = \<lparr>m_vertices = [], m_edges = [], m_faces = []\<rparr>"

definition new_MEdge :: "vref option \<Rightarrow> vref option \<Rightarrow> MEdge" where
  "new_MEdge a b =
     \<lparr>m_v1 = a, m_v2 = b, left_face = None, right_face = None,
      left_prev = None, left_next = None, right_prev = None, right_next = None\<rparr>"

definition add_vertex :: "'p Mesh \<Rightarrow> 'p \<Rightarrow> vref \<times> 'p Mesh" where
  "add_vertex m pos =
     (length (m_vertices m),
      m\<lparr>m_vertices := m_vertices m @ [\<lparr>position = pos, m_edge = None\<rparr>]\<rparr>)"

text \<open>\<^verbatim>\<open>if (!v->edge) v->edge = new_edge;\<close>\<close>

definition set_edge_if_unset :: "'p Mesh \<Rightarrow> vref \<Rightarrow> eref \<Rightarrow> 'p Mesh" where
  "set_edge_if_unset m a e =
     (if m_edge (m_vertices m ! a) = None
      then m\<lparr>m_vertices := (m_vertices m)[a := (m_vertices m ! a)\<lparr>m_edge := Some e\<rparr>]\<rparr>
      else m)"

definition add_edge ::
  "'p Mesh \<Rightarrow> vref option \<Rightarrow> vref option \<Rightarrow> (error + eref) \<times> 'p Mesh" where
  "add_edge m a b =
     (case (a, b) of
        (Some va, Some vb) \<Rightarrow>
          if va = vb then (Inl InvalidArgument, m)
          else
            (let new_edge = length (m_edges m);
                 m1 = m\<lparr>m_edges := m_edges m @ [new_MEdge a b]\<rparr>;
                 m2 = set_edge_if_unset m1 va new_edge;
                 m3 = set_edge_if_unset m2 vb new_edge
             in (Inr new_edge, m3))
      | _ \<Rightarrow> (Inl InvalidArgument, m))"

text \<open>
  The test of the lookup loop of \<^verbatim>\<open>add_face\<close>,
  \<^verbatim>\<open>(e->v1 == v1 && e->v2 == v2) || (e->v1 == v2 && e->v2 == v1)\<close>,
  and the loop itself: the first edge of the vector that passes, \<open>i\<close> being
  the index of the head of the list.
\<close>

definition edge_joins :: "MEdge \<Rightarrow> vref option \<Rightarrow> vref option \<Rightarrow> bool" where
  "edge_joins E a b = ((m_v1 E = a \<and> m_v2 E = b) \<or> (m_v1 E = b \<and> m_v2 E = a))"

fun first_match :: "MEdge list \<Rightarrow> nat \<Rightarrow> vref option \<Rightarrow> vref option \<Rightarrow> eref option" where
  "first_match [] i a b = None"
| "first_match (E # es) i a b =
     (if edge_joins E a b then Some i else first_match es (Suc i) a b)"

text \<open>
  The first loop of \<^verbatim>\<open>add_face\<close>, over the indices \<open>0 ..< verts.size()\<close>: look
  the pair up, make the edge when there is none (\<^verbatim>\<open>add_edge\<close> may throw, and
  then the edges made so far stay), push the edge on \<^verbatim>\<open>face_edges\<close>.
\<close>

fun collect_edges ::
  "'p Mesh \<Rightarrow> vref option list \<Rightarrow> nat list \<Rightarrow> eref list \<Rightarrow> (error + eref list) \<times> 'p Mesh" where
  "collect_edges m verts [] face_edges = (Inr face_edges, m)"
| "collect_edges m verts (i # is) face_edges =
     (let a = verts ! i; b = verts ! ((i + 1) mod length verts)
      in case first_match (m_edges m) 0 a b of
           Some edge \<Rightarrow> collect_edges m verts is (face_edges @ [edge])
         | None \<Rightarrow>
             (case add_edge m a b of
                (Inl err, m') \<Rightarrow> (Inl err, m')
              | (Inr edge, m') \<Rightarrow> collect_edges m' verts is (face_edges @ [edge])))"

text \<open>
  The body of the second loop, for one edge: the face, the next and the
  previous edge go into the left slots when \<^verbatim>\<open>left_face\<close> is null, else into
  the right ones.
\<close>

definition wire_slot :: "fref \<Rightarrow> eref \<Rightarrow> eref \<Rightarrow> MEdge \<Rightarrow> MEdge" where
  "wire_slot new_face nxt prv E =
     (if left_face E = None
      then E\<lparr>left_face := Some new_face, left_next := Some nxt, left_prev := Some prv\<rparr>
      else E\<lparr>right_face := Some new_face, right_next := Some nxt, right_prev := Some prv\<rparr>)"

fun wire_edges :: "'p Mesh \<Rightarrow> fref \<Rightarrow> eref list \<Rightarrow> nat list \<Rightarrow> 'p Mesh" where
  "wire_edges m new_face face_edges [] = m"
| "wire_edges m new_face face_edges (i # is) =
     (let n = length face_edges;
          current = face_edges ! i;
          nxt = face_edges ! ((i + 1) mod n);
          prv = face_edges ! ((i + n - 1) mod n)
      in wire_edges
           (m\<lparr>m_edges := (m_edges m)[current := wire_slot new_face nxt prv (m_edges m ! current)]\<rparr>)
           new_face face_edges is)"

definition add_face :: "'p Mesh \<Rightarrow> vref option list \<Rightarrow> (error + fref) \<times> 'p Mesh" where
  "add_face m verts =
     (if length verts < 3 then (Inl InvalidArgument, m)
      else
        (case collect_edges m verts [0..<length verts] [] of
           (Inl err, m1) \<Rightarrow> (Inl err, m1)
         | (Inr face_edges, m1) \<Rightarrow>
             (let new_face = length (m_faces m1);
                  m2 = m1\<lparr>m_faces := m_faces m1 @ [\<lparr>face_edge = Some (face_edges ! 0)\<rparr>]\<rparr>;
                  m3 = wire_edges m2 new_face face_edges [0..<length face_edges]
              in (Inr new_face, m3))))"

text \<open>An edge between the two vertices exists, in either order of its endpoints.\<close>

definition has_edge :: "MEdge list \<Rightarrow> vref option \<Rightarrow> vref option \<Rightarrow> bool" where
  "has_edge es a b = (\<exists>E\<in>set es. edge_joins E a b)"

text \<open>
  Test \<^verbatim>\<open>SharedEdge\<close>: four vertices and the triangle \<open>v1 v2 v3\<close> (vertices
  0, 1, 2; edges 0, 1, 2; face 0). The second triangle of the test is
  \<open>v1 v4 v2\<close>, that is \<open>[0, 3, 1]\<close>.
\<close>

definition four_vertices :: "point Mesh" where
  "four_vertices =
     snd (add_vertex (snd (add_vertex (snd (add_vertex (snd (add_vertex empty_mesh
       (0, 0, 0))) (2, 0, 0))) (1, 2, 0))) (1, -2, 0))"

definition one_triangle :: "point Mesh" where
  "one_triangle = snd (add_face four_vertices [Some 0, Some 1, Some 2])"

text \<open>
  What the second loop does to one edge, \<open>E0\<close> before and \<open>E\<close> after: the
  face is in the left slot when that was empty, else the left slot is as it
  was and the face is in the right slot.
\<close>

definition takes_free_slot :: "fref \<Rightarrow> MEdge \<Rightarrow> MEdge \<Rightarrow> bool" where
  "takes_free_slot f E0 E =
     (if left_face E0 = None then left_face E = Some f
      else left_face E = left_face E0 \<and> right_face E = Some f)"

subsection \<open>The walk round a vertex\<close>

text \<open>
  \<^verbatim>\<open>Vertex::get_incident_edges\<close>. The outer \<^verbatim>\<open>do ... while\<close> stops after 1001
  edges; the two inner \<^verbatim>\<open>while\<close> loops, which skip edges that do not touch
  the vertex, have no bound. A loop that may run forever is a partial
  function into \<open>option\<close>: \<open>None\<close> is "does not return". \<open>seek_from_v1\<close> is the
  inner loop of the branch \<^verbatim>\<open>current->v1 == this\<close>, \<open>seek_from_v2\<close> the one of
  the other branch; each returns the value of \<^verbatim>\<open>current\<close> it ends with.
\<close>

partial_function (option) seek_from_v1 ::
  "'p Mesh \<Rightarrow> vref \<Rightarrow> eref option \<Rightarrow> eref option option" where
  "seek_from_v1 m this current =
     (case current of
        None \<Rightarrow> Some None
      | Some c \<Rightarrow>
          if m_v2 (m_edges m ! c) \<noteq> Some this \<and> m_v1 (m_edges m ! c) \<noteq> Some this
          then (if m_v1 (m_edges m ! c) = Some this
                then seek_from_v1 m this (right_next (m_edges m ! c))
                else seek_from_v1 m this (left_next (m_edges m ! c)))
          else Some current)"

partial_function (option) seek_from_v2 ::
  "'p Mesh \<Rightarrow> vref \<Rightarrow> eref option \<Rightarrow> eref option option" where
  "seek_from_v2 m this current =
     (case current of
        None \<Rightarrow> Some None
      | Some c \<Rightarrow>
          if m_v1 (m_edges m ! c) \<noteq> Some this \<and> m_v2 (m_edges m ! c) \<noteq> Some this
          then (if m_v2 (m_edges m ! c) = Some this
                then seek_from_v2 m this (left_next (m_edges m ! c))
                else seek_from_v2 m this (right_next (m_edges m ! c)))
          else Some current)"

partial_function (option) incident_loop ::
  "'p Mesh \<Rightarrow> vref \<Rightarrow> eref \<Rightarrow> eref \<Rightarrow> eref list \<Rightarrow> eref list option" where
  "incident_loop m this start current result =
     Option.bind
       (if m_v1 (m_edges m ! current) = Some this
        then seek_from_v1 m this (right_next (m_edges m ! current))
        else seek_from_v2 m this (left_next (m_edges m ! current)))
       (\<lambda>nxt.
          if 1000 < length (result @ [current]) then Some (result @ [current])
          else (case nxt of
                  None \<Rightarrow> Some (result @ [current])
                | Some n \<Rightarrow>
                    if n \<noteq> start then incident_loop m this start n (result @ [current])
                    else Some (result @ [current])))"

definition get_incident_edges :: "'p Mesh \<Rightarrow> vref \<Rightarrow> eref list option" where
  "get_incident_edges m this =
     (case m_edge (m_vertices m ! this) of
        None \<Rightarrow> Some []
      | Some e \<Rightarrow> incident_loop m this e e [])"

text \<open>
  Five vertices and three triangles, \<open>v0 v1 v2\<close>, \<open>v3 v0 v4\<close> and \<open>v3 v0 v1\<close>. The
  last two name the pair \<open>(v3, v0)\<close> in the same direction, as the base and the
  first side of the pyramid of test \<^verbatim>\<open>VertexIncidentEdges\<close> do with theirs.
\<close>

definition five_vertices :: "point Mesh" where
  "five_vertices = snd (add_vertex four_vertices (3, 3, 0))"

definition three_faces :: "point Mesh" where
  "three_faces =
     snd (add_face (snd (add_face (snd (add_face five_vertices [Some 0, Some 1, Some 2]))
        [Some 3, Some 0, Some 4])) [Some 3, Some 0, Some 1])"

text \<open>
  A fan of three triangles round the pair \<open>(v0, v1)\<close>: \<open>v0 v1 v2\<close>, then \<open>v0 v3 v1\<close>
  (test \<^verbatim>\<open>SharedEdge\<close>), then \<open>v0 v1 v4\<close>.
\<close>

definition two_triangles :: "point Mesh" where
  "two_triangles =
     snd (add_face (snd (add_face five_vertices [Some 0, Some 1, Some 2]))
        [Some 0, Some 3, Some 1])"

definition fan_of_three :: "point Mesh" where
  "fan_of_three = snd (add_face two_triangles [Some 0, Some 1, Some 4])"

section \<open>Face normals (namespace sketchy::kernel)\<close>

subsection \<open>Double-precision arithmetic\<close>

text \<open>
  \<^verbatim>\<open>Vec3\<close> holds three \<^verbatim>\<open>double\<close>s. A double is a finite real, one of the two
  infinities or a NaN. How a finite result is rounded is a parameter, a
  \<open>format\<close>: \<open>rnd\<close> rounds a real as if the exponent had no upper limit and \<open>big\<close> is
  the largest finite value; a rounded result beyond \<open>big\<close> is an infinity. The
  operations on infinities and NaN are the ones IEEE 754 fixes. One zero
  stands for both signed zeros: the code below compares with \<^verbatim>\<open>len > 0\<close> only,
  which does not tell them apart, and divides by a length only after that test.
  Every operation is rounded on its own, in the order the source writes them.
\<close>

datatype double = Fin real | PInf | NInf | NaN

record format =
  rnd :: "real \<Rightarrow> real"
  big :: real

definition round_to :: "format \<Rightarrow> real \<Rightarrow> double" where
  "round_to fmt x =
     (if big fmt < rnd fmt x then PInf
      else if rnd fmt x < - big fmt then NInf
      else Fin (rnd fmt x))"

fun dadd :: "format \<Rightarrow> double \<Rightarrow> double \<Rightarrow> double" where
  "dadd fmt (Fin a) (Fin b) = round_to fmt (a + b)"
| "dadd fmt NaN b = NaN"
| "dadd fmt a NaN = NaN"
| "dadd fmt PInf NInf = NaN"
| "dadd fmt NInf PInf = NaN"
| "dadd fmt PInf b = PInf"
| "dadd fmt a PInf = PInf"
| "dadd fmt NInf b = NInf"
| "dadd fmt a NInf = NInf"


text \<open>An infinity times zero is NaN; otherwise the sign is the product of the signs.\<close>

fun dmul :: "format \<Rightarrow> double \<Rightarrow> double \<Rightarrow> double" where
  "dmul fmt (Fin a) (Fin b) = round_to fmt (a * b)"
| "dmul fmt NaN b = NaN"
| "dmul fmt a NaN = NaN"
| "dmul fmt PInf (Fin b) = (if b = 0 then NaN else if 0 < b then PInf else NInf)"
| "dmul fmt NInf (Fin b) = (if b = 0 then NaN else if 0 < b then NInf else PInf)"
| "dmul fmt (Fin a) PInf = (if a = 0 then NaN else if 0 < a then PInf else NInf)"
| "dmul fmt (Fin a) NInf = (if a = 0 then NaN else if 0 < a then NInf else PInf)"
| "dmul fmt PInf PInf = PInf"
| "dmul fmt NInf NInf = PInf"
| "dmul fmt PInf NInf = NInf"
| "dmul fmt NInf PInf = NInf"

text \<open>
  An infinity by an infinity and zero by zero are NaN, a finite value by an
  infinity is zero, a nonzero finite value by zero is an infinity.
\<close>

fun ddiv :: "format \<Rightarrow> double \<Rightarrow> double \<Rightarrow> double" where
  "ddiv fmt (Fin a) (Fin b) =
     (if b = 0 then (if a = 0 then NaN else if 0 < a then PInf else NInf)
      else round_to fmt (a / b))"
| "ddiv fmt NaN b = NaN"
| "ddiv fmt a NaN = NaN"
| "ddiv fmt (Fin a) PInf = Fin 0"
| "ddiv fmt (Fin a) NInf = Fin 0"
| "ddiv fmt PInf (Fin b) = (if 0 \<le> b then PInf else NInf)"
| "ddiv fmt NInf (Fin b) = (if 0 \<le> b then NInf else PInf)"
| "ddiv fmt PInf b = NaN"
| "ddiv fmt NInf b = NaN"

fun dsqrt :: "format \<Rightarrow> double \<Rightarrow> double" where
  "dsqrt fmt (Fin a) = (if a < 0 then NaN else round_to fmt (sqrt a))"
| "dsqrt fmt PInf = PInf"
| "dsqrt fmt NInf = NaN"
| "dsqrt fmt NaN = NaN"

text \<open>\<^verbatim>\<open>a > b\<close>: false as soon as one side is NaN.\<close>

fun dgt :: "double \<Rightarrow> double \<Rightarrow> bool" where
  "dgt (Fin a) (Fin b) = (b < a)"
| "dgt NaN b = False"
| "dgt a NaN = False"
| "dgt PInf PInf = False"
| "dgt PInf b = True"
| "dgt a PInf = False"
| "dgt NInf b = False"
| "dgt a NInf = True"

subsection \<open>\<^verbatim>\<open>Vec3\<close>\<close>

datatype Vec3 = Vec3 (vec_x: double) (vec_y: double) (vec_z: double)

text \<open>The vector with three finite components.\<close>

abbreviation vec :: "real \<Rightarrow> real \<Rightarrow> real \<Rightarrow> Vec3" where
  "vec a b c \<equiv> Vec3 (Fin a) (Fin b) (Fin c)"

text \<open>\<^verbatim>\<open>operator/(double scalar)\<close>.\<close>

definition vec_div :: "format \<Rightarrow> Vec3 \<Rightarrow> double \<Rightarrow> Vec3" where
  "vec_div fmt v scalar =
     Vec3 (ddiv fmt (vec_x v) scalar) (ddiv fmt (vec_y v) scalar) (ddiv fmt (vec_z v) scalar)"

text \<open>\<^verbatim>\<open>length()\<close>: \<^verbatim>\<open>std::sqrt(x * x + y * y + z * z)\<close>, the sum taken from the left.\<close>

definition vec_length :: "format \<Rightarrow> Vec3 \<Rightarrow> double" where
  "vec_length fmt v =
     dsqrt fmt (dadd fmt (dadd fmt (dmul fmt (vec_x v) (vec_x v)) (dmul fmt (vec_y v) (vec_y v)))
                         (dmul fmt (vec_z v) (vec_z v)))"

definition normalized :: "format \<Rightarrow> Vec3 \<Rightarrow> Vec3" where
  "normalized fmt v =
     (let len = vec_length fmt v
      in if dgt len (Fin 0) then vec_div fmt v len else Vec3 (Fin 0) (Fin 0) (Fin 0))"

definition is_nan :: "double \<Rightarrow> bool" where
  "is_nan d = (d = NaN)"

definition is_inf :: "double \<Rightarrow> bool" where
  "is_inf d = (d = PInf \<or> d = NInf)"

definition has_nan :: "Vec3 \<Rightarrow> bool" where
  "has_nan v = (is_nan (vec_x v) \<or> is_nan (vec_y v) \<or> is_nan (vec_z v))"

definition has_inf :: "Vec3 \<Rightarrow> bool" where
  "has_inf v = (is_inf (vec_x v) \<or> is_inf (vec_y v) \<or> is_inf (vec_z v))"

subsection \<open>The boundary walk of a face and its normal\<close>








text \<open>
  A format keeps the sign when it rounds no real that is not negative to a
  negative one (every rounding mode of IEEE 754 does).
\<close>

definition keeps_sign :: "format \<Rightarrow> bool" where
  "keeps_sign fmt = (0 \<le> big fmt \<and> (\<forall>x. 0 \<le> x \<longrightarrow> 0 \<le> rnd fmt x))"

subsection \<open>Rounding with a bounded relative error\<close>





subsection \<open>Polygons in the plane \<open>z = 0\<close> with integer coordinates\<close>



text \<open>
  Twice the signed area of the polygon with the corners \<open>pts\<close>, as the sum
  Newell's method takes for the \<open>z\<close> component (it is the shoelace sum, lemma
  \<open>twice_area_shoelace\<close>): positive when the corners run counter-clockwise.
\<close>

definition newell_term :: "(int \<times> int) list \<Rightarrow> nat \<Rightarrow> int" where
  "newell_term pts i =
     (fst (pts ! i) - fst (pts ! ((i + 1) mod length pts))) *
     (snd (pts ! i) + snd (pts ! ((i + 1) mod length pts)))"

definition twice_area :: "(int \<times> int) list \<Rightarrow> int" where
  "twice_area pts = sum_list (map (newell_term pts) [0..<length pts])"


subsection \<open>Concrete formats and meshes\<close>

text \<open>
  The runs below work on small integers, powers of two and the infinities. Those
  binary64 represents exactly, and round-to-nearest leaves a representable value
  as it is; \<open>exact64\<close> has the overflow threshold of binary64,
  \<open>(2^53 - 1) * 2^971\<close>, and rounds nothing below it.
\<close>

definition exact64 :: format where
  "exact64 = \<lparr>rnd = (\<lambda>x. x), big = (2 ^ 53 - 1) * 2 ^ 971\<rparr>"






section \<open>Properties of the Euler operators\<close>

subsection \<open>Reading the store after a write\<close>

lemma upd_simps [simp]:
  "vstore (upd_vertex k a g) = (vstore k)[a := g (vstore k ! a)]"
  "estore (upd_vertex k a g) = estore k"
  "fstore (upd_vertex k a g) = fstore k"
  "vertices (upd_vertex k a g) = vertices k"
  "edges (upd_vertex k a g) = edges k"
  "faces (upd_vertex k a g) = faces k"
  "vstore (upd_edge k a h) = vstore k"
  "estore (upd_edge k a h) = (estore k)[a := h (estore k ! a)]"
  "fstore (upd_edge k a h) = fstore k"
  "vertices (upd_edge k a h) = vertices k"
  "edges (upd_edge k a h) = edges k"
  "faces (upd_edge k a h) = faces k"
  "vstore (upd_face k a i) = vstore k"
  "estore (upd_face k a i) = estore k"
  "fstore (upd_face k a i) = (fstore k)[a := i (fstore k ! a)]"
  "vertices (upd_face k a i) = vertices k"
  "edges (upd_face k a i) = edges k"
  "faces (upd_face k a i) = faces k"
  by (simp_all add: upd_vertex_def upd_edge_def upd_face_def)

text \<open>The sweep of \<^verbatim>\<open>kef\<close> touches the edge store only, at the swept addresses only.\<close>

lemma sweep_other_fields:
  "vstore (fold (\<lambda>x s. upd_edge s x g) xs k) = vstore k \<and>
   fstore (fold (\<lambda>x s. upd_edge s x g) xs k) = fstore k \<and>
   vertices (fold (\<lambda>x s. upd_edge s x g) xs k) = vertices k \<and>
   edges (fold (\<lambda>x s. upd_edge s x g) xs k) = edges k \<and>
   faces (fold (\<lambda>x s. upd_edge s x g) xs k) = faces k \<and>
   length (estore (fold (\<lambda>x s. upd_edge s x g) xs k)) = length (estore k)"
  by (induction xs arbitrary: k) simp_all

lemma sweep_nth:
  "distinct xs \<Longrightarrow> \<forall>x\<in>set xs. x < length (estore k) \<Longrightarrow>
   estore (fold (\<lambda>x s. upd_edge s x g) xs k) ! j =
     (if j \<in> set xs then g (estore k ! j) else estore k ! j)"
proof (induction xs arbitrary: k)
  case Nil
  then show ?case by simp
next
  case (Cons a xs)
  have "estore (fold (\<lambda>x s. upd_edge s x g) xs (upd_edge k a g)) ! j =
        (if j \<in> set xs then g (estore (upd_edge k a g) ! j) else estore (upd_edge k a g) ! j)"
    using Cons.prems by (intro Cons.IH) auto
  then show ?case using Cons.prems by (auto simp: nth_list_update)
qed

lemma sweep_id:
  "\<forall>x\<in>set xs. g (estore k ! x) = estore k ! x \<Longrightarrow>
   fold (\<lambda>x s. upd_edge s x g) xs k = k"
  by (induction xs) (simp_all add: upd_edge_def)

lemma length_removeAll_distinct:
  "distinct xs \<Longrightarrow> x \<in> set xs \<Longrightarrow> Suc (length (removeAll x xs)) = length xs"
  by (induction xs) auto

subsection \<open>MEV\<close>

text \<open>
  Claim C6. \<^verbatim>\<open>mev(u, p, f)\<close> on a vertex \<open>u\<close> and a face \<open>f\<close> that exist returns a
  new edge \<open>e\<close>. One vertex \<open>w\<close> is pushed, with coordinates \<open>p\<close>; one edge is
  pushed, \<open>e\<close>, with \<open>e.v1 = u\<close>, \<open>e.v2 = w\<close> and both face slots on \<open>f\<close>; no face
  is pushed. The counts move by \<open>+1\<close>, \<open>+1\<close>, \<open>0\<close>, and \<open>w\<close> is read off \<open>e.v2\<close>.
\<close>

theorem mev_makes_edge_and_vertex:
  assumes "u < length (vstore k)" and "f < length (fstore k)"
  shows "\<exists>k'. mev k (Some u) p (Some f) = (Inr (length (estore k)), k') \<and>
           vertices k' = vertices k @ [length (vstore k)] \<and>
           edges k' = edges k @ [length (estore k)] \<and>
           faces k' = faces k \<and>
           getVertexCount k' = getVertexCount k + 1 \<and>
           getEdgeCount k' = getEdgeCount k + 1 \<and>
           getFaceCount k' = getFaceCount k \<and>
           length (vstore k') = length (vstore k) + 1 \<and>
           length (estore k') = length (estore k) + 1 \<and>
           length (fstore k') = length (fstore k) \<and>
           coords (vstore k' ! length (vstore k)) = p \<and>
           v1 (estore k' ! length (estore k)) = Some u \<and>
           v2 (estore k' ! length (estore k)) = Some (length (vstore k)) \<and>
           f1 (estore k' ! length (estore k)) = Some f \<and>
           f2 (estore k' ! length (estore k)) = Some f"
  using assms
  by (auto simp: mev_def alloc_vertex_def alloc_edge_def new_Vertex_def new_Edge_def Let_def
       getVertexCount_def getEdgeCount_def getFaceCount_def nth_append nth_list_update
       split: option.splits)

text \<open>The first \<^verbatim>\<open>mev\<close> of the unit tests, on the seed.\<close>

theorem mev_makes_edge_and_vertex_witness:
  "0 < length (vstore seed) \<and> 0 < length (fstore seed) \<and>
   (\<exists>k'. mev seed (Some 0) (1, 0, 0) (Some 0) = (Inr 0, k') \<and>
      vertices k' = [0, 1] \<and> edges k' = [0] \<and> faces k' = [0] \<and>
      coords (vstore k' ! 1) = (1, 0, 0) \<and>
      v1 (estore k' ! 0) = Some 0 \<and> v2 (estore k' ! 0) = Some 1 \<and>
      f1 (estore k' ! 0) = Some 0 \<and> f2 (estore k' ! 0) = Some 0)"
proof -
  have h1: "0 < length (vstore seed)" and h2: "0 < length (fstore seed)"
    by code_simp+
  have n: "length (vstore seed) = 1" "length (estore seed) = 0"
    "vertices seed = [0]" "edges seed = []" "faces seed = [0]"
    by code_simp+
  show ?thesis
    using mev_makes_edge_and_vertex [OF h1 h2, of "(1, 0, 0)"] h1 h2
    by (auto simp: n)
qed

subsection \<open>KEF\<close>

text \<open>
  Claim C2. Let \<open>e\<close> be a live edge whose face slots hold two different live
  faces, \<open>e.f1 = a\<close> and \<open>e.f2 = b\<close>. Then \<^verbatim>\<open>kef(e)\<close> returns \<open>a\<close>; \<open>e\<close> leaves the
  edge vector and \<open>b\<close> the face vector, \<open>a\<close> stays; in every remaining edge a
  face slot that held \<open>b\<close> holds \<open>a\<close> and every other slot is as before, so no
  remaining edge refers to \<open>b\<close>; the counts move by \<open>0\<close>, \<open>-1\<close>, \<open>-1\<close>.
\<close>

theorem kef_merges_faces:
  assumes "pools_distinct k" and "closed_store k"
    and "e \<in> set (edges k)"
    and "f1 (estore k ! e) = Some a" and "f2 (estore k ! e) = Some b" and "a \<noteq> b"
    and "a \<in> set (faces k)" and "b \<in> set (faces k)"
  shows "\<exists>k'. kef k (Some e) = (Inr a, k') \<and>
           edges k' = removeAll e (edges k) \<and> e \<notin> set (edges k') \<and>
           faces k' = removeAll b (faces k) \<and> a \<in> set (faces k') \<and> b \<notin> set (faces k') \<and>
           vertices k' = vertices k \<and>
           getEdgeCount k' + 1 = getEdgeCount k \<and>
           getFaceCount k' + 1 = getFaceCount k \<and>
           getVertexCount k' = getVertexCount k \<and>
           (\<forall>x\<in>set (edges k').
              f1 (estore k' ! x) =
                (if f1 (estore k ! x) = Some b then Some a else f1 (estore k ! x)) \<and>
              f2 (estore k' ! x) =
                (if f2 (estore k ! x) = Some b then Some a else f2 (estore k ! x)) \<and>
              f1 (estore k' ! x) \<noteq> Some b \<and> f2 (estore k' ! x) \<noteq> Some b \<and>
              v1 (estore k' ! x) = v1 (estore k ! x) \<and>
              v2 (estore k' ! x) = v2 (estore k ! x))"
proof -
  let ?k1 = "k\<lparr>edges := removeAll e (edges k)\<rparr>"
  let ?k2 = "fold (\<lambda>x s. upd_edge s x (rewrite_face b a)) (edges ?k1) ?k1"
  let ?k3 = "?k2\<lparr>faces := removeAll b (faces ?k2)\<rparr>"
  have run: "kef k (Some e) = (Inr a, ?k3)"
    using assms(4,5) by (simp add: kef_def Let_def)
  have d: "distinct (removeAll e (edges k))"
    "\<forall>x\<in>set (removeAll e (edges k)). x < length (estore ?k1)"
    using assms(1,2)
    by (auto simp: pools_distinct_def closed_store_def Let_def distinct_removeAll list_all_iff)
  have nth: "\<And>j. estore ?k3 ! j =
      (if j \<in> set (removeAll e (edges k)) then rewrite_face b a (estore k ! j)
       else estore k ! j)"
    using sweep_nth [OF d, of "rewrite_face b a"] by simp
  have other: "edges ?k3 = removeAll e (edges k)" "faces ?k3 = removeAll b (faces k)"
      "vertices ?k3 = vertices k"
    using sweep_other_fields [of "rewrite_face b a" "removeAll e (edges k)" ?k1] by simp_all
  have cnt: "Suc (length (removeAll e (edges k))) = length (edges k)"
      "Suc (length (removeAll b (faces k))) = length (faces k)"
    using assms(1,3,8) by (auto simp: pools_distinct_def length_removeAll_distinct)
  show ?thesis
    using run other cnt assms(6,7) nth
    by (auto simp: getEdgeCount_def getFaceCount_def getVertexCount_def rewrite_face_def Let_def)
qed

text \<open>
  In \<open>square_with_spur\<close> edge 3 separates face 0 from face 1 and edge 4 has both
  slots on face 1: killing edge 3 moves both slots of edge 4 to face 0.
\<close>

theorem kef_merges_faces_witness:
  "pools_distinct square_with_spur \<and> closed_store square_with_spur \<and>
   3 \<in> set (edges square_with_spur) \<and>
   f1 (estore square_with_spur ! 3) = Some 0 \<and> f2 (estore square_with_spur ! 3) = Some 1 \<and>
   (0::nat) \<noteq> 1 \<and> 0 \<in> set (faces square_with_spur) \<and> 1 \<in> set (faces square_with_spur) \<and>
   (\<exists>k'. kef square_with_spur (Some 3) = (Inr 0, k') \<and>
      edges k' = [0, 1, 2, 4] \<and> faces k' = [0] \<and>
      f1 (estore k' ! 4) = Some 0 \<and> f2 (estore k' ! 4) = Some 0)"
proof -
  have h: "pools_distinct square_with_spur" "closed_store square_with_spur"
    "3 \<in> set (edges square_with_spur)"
    "f1 (estore square_with_spur ! 3) = Some 0" "f2 (estore square_with_spur ! 3) = Some 1"
    "(0::nat) \<noteq> 1" "0 \<in> set (faces square_with_spur)" "1 \<in> set (faces square_with_spur)"
    by code_simp+
  have n: "edges square_with_spur = [0, 1, 2, 3, 4]" "faces square_with_spur = [0, 1]"
    "f1 (estore square_with_spur ! 4) = Some 1" "f2 (estore square_with_spur ! 4) = Some 1"
    by code_simp+
  show ?thesis
    using kef_merges_faces [OF h] h by (auto simp: n)
qed

subsection \<open>MEF followed by KEF\<close>

text \<open>What \<^verbatim>\<open>mef\<close> does to the store: it appends one edge and one face and writes nothing else.\<close>

lemma mef_shape:
  assumes "va \<noteq> vb"
  shows "\<exists>k1 E F. mef k (Some va) (Some vb) (Some f) = (Inr (length (estore k)), k1) \<and>
           vstore k1 = vstore k \<and> estore k1 = estore k @ [E] \<and> fstore k1 = fstore k @ [F] \<and>
           vertices k1 = vertices k \<and>
           edges k1 = edges k @ [length (estore k)] \<and>
           faces k1 = faces k @ [length (fstore k)] \<and>
           v1 E = Some va \<and> v2 E = Some vb \<and>
           f1 E = Some f \<and> f2 E = Some (length (fstore k)) \<and>
           f_edge F = Some (length (estore k))"
  using assms
  by (auto simp: mef_def alloc_edge_def alloc_face_def new_Edge_def new_Face_def Let_def
        upd_edge_def upd_face_def split: option.splits)

text \<open>
  Claim C3. From any state with a closed store, whatever its topology,
  \<^verbatim>\<open>mef(a, b, f)\<close> with \<open>a \<noteq> b\<close> succeeds, \<^verbatim>\<open>kef\<close> on
  the edge it returns succeeds and returns \<open>f\<close>, and afterwards the three
  vectors are what they were (so the three counts are), and every vertex, edge
  and face that existed before holds in every field what it held before.
\<close>

theorem mef_kef_round_trip:
  assumes "closed_store k" and "va \<noteq> vb"
  shows "\<exists>e k1 k2. mef k (Some va) (Some vb) (Some f) = (Inr e, k1) \<and>
           kef k1 (Some e) = (Inr f, k2) \<and>
           getVertexCount k2 = getVertexCount k \<and>
           getEdgeCount k2 = getEdgeCount k \<and>
           getFaceCount k2 = getFaceCount k \<and>
           vertices k2 = vertices k \<and> edges k2 = edges k \<and> faces k2 = faces k \<and>
           vstore k2 = vstore k \<and>
           take (length (estore k)) (estore k2) = estore k \<and>
           take (length (fstore k)) (fstore k2) = fstore k"
proof -
  obtain k1 E F where
    run: "mef k (Some va) (Some vb) (Some f) = (Inr (length (estore k)), k1)"
    and k1: "vstore k1 = vstore k" "estore k1 = estore k @ [E]" "fstore k1 = fstore k @ [F]"
      "vertices k1 = vertices k" "edges k1 = edges k @ [length (estore k)]"
      "faces k1 = faces k @ [length (fstore k)]"
    and E: "f1 E = Some f" "f2 E = Some (length (fstore k))"
    using mef_shape [OF assms(2), of k f] by blast
  let ?g = "rewrite_face (length (fstore k)) f"
  let ?k1' = "k1\<lparr>edges := edges k\<rparr>"
  have fresh_e: "length (estore k) \<notin> set (edges k)"
    and fresh_f: "length (fstore k) \<notin> set (faces k)"
    using assms(1) by (auto simp: closed_store_def Let_def list_all_iff)
  have untouched: "\<forall>x\<in>set (edges k). ?g (estore ?k1' ! x) = estore ?k1' ! x"
  proof
    fix x assume x: "x \<in> set (edges k)"
    then have lt: "x < length (estore k)"
      using assms(1) by (auto simp: closed_store_def Let_def list_all_iff)
    then have "ref_ok (length (fstore k)) (f1 (estore k ! x))"
        "ref_ok (length (fstore k)) (f2 (estore k ! x))"
      using assms(1) by (auto simp: closed_store_def Let_def list_all_length edge_ok_def)
    then show "?g (estore ?k1' ! x) = estore ?k1' ! x"
      using lt k1 by (auto simp: rewrite_face_def ref_ok_def nth_append split: option.splits)
  qed
  have sweep: "fold (\<lambda>x s. upd_edge s x ?g) (edges k) ?k1' = ?k1'"
    by (rule sweep_id [OF untouched])
  have "kef k1 (Some (length (estore k))) = (Inr f, ?k1'\<lparr>faces := faces k\<rparr>)"
    using E k1 fresh_e fresh_f sweep by (simp add: kef_def Let_def)
  then show ?thesis
    using run k1 by (auto simp: getVertexCount_def getEdgeCount_def getFaceCount_def)
qed

text \<open>Test \<^verbatim>\<open>KEF_RemovesEdgeAndMergesFaces\<close>, on the square: close it, kill the closing edge.\<close>

theorem mef_kef_round_trip_witness:
  "closed_store open_square \<and> (3::nat) \<noteq> 0 \<and>
   (\<exists>e k1 k2. mef open_square (Some 3) (Some 0) (Some 0) = (Inr e, k1) \<and>
      kef k1 (Some e) = (Inr 0, k2) \<and>
      getVertexCount k2 = 4 \<and> getEdgeCount k2 = 3 \<and> getFaceCount k2 = 1 \<and>
      vertices k2 = [0, 1, 2, 3] \<and> edges k2 = [0, 1, 2] \<and> faces k2 = [0] \<and>
      vstore k2 = vstore open_square \<and>
      take 3 (estore k2) = estore open_square \<and>
      take 1 (fstore k2) = fstore open_square)"
proof -
  have h1: "closed_store open_square" and h2: "(3::nat) \<noteq> 0"
    by code_simp+
  have n: "getVertexCount open_square = 4" "getEdgeCount open_square = 3"
    "getFaceCount open_square = 1" "vertices open_square = [0, 1, 2, 3]"
    "edges open_square = [0, 1, 2]" "faces open_square = [0]"
    "length (estore open_square) = 3" "length (fstore open_square) = 1"
    by code_simp+
  show ?thesis
    using mef_kef_round_trip [OF h1 h2, of 0] h1 by (simp add: n)
qed

subsection \<open>MEF\<close>

text \<open>
  Claim C1, at the closing \<^verbatim>\<open>mef(v4, v1, face)\<close> of test \<^verbatim>\<open>MEF_SplitsFace\<close>
  (vertices 3 and 0, face 0). The call returns the new edge 3, there are two
  faces, and edge 3 has \<open>f1\<close> on face 0 and \<open>f2\<close> on the new face 1. The three
  edges of the square keep both face slots on face 0: the only slot in the
  mesh that refers to face 1 is \<open>f2\<close> of the new edge. The boundary walk of
  face 1 is edge 3, then edge 0, where it stops because edge 0 is not on
  face 1. (By \<open>mef_shape\<close> no call of \<^verbatim>\<open>mef\<close> writes to an edge that existed.)
\<close>

theorem mef_closing_square_face_slots:
  "fst (mef open_square (Some 3) (Some 0) (Some 0)) = Inr 3 \<and>
   edges closed_square = [0, 1, 2, 3] \<and> faces closed_square = [0, 1] \<and>
   map (\<lambda>x. f1 (estore closed_square ! x)) (edges closed_square)
     = [Some 0, Some 0, Some 0, Some 0] \<and>
   map (\<lambda>x. f2 (estore closed_square ! x)) (edges closed_square)
     = [Some 0, Some 0, Some 0, Some 1] \<and>
   face_slot_count closed_square 1 = 1 \<and>
   getFaceBoundary closed_square (Some 1) = [3, 0]"
  by code_simp

subsection \<open>What the operators reject\<close>

text \<open>
  Claim C5 as the code has it, for \<^verbatim>\<open>mef\<close>. It throws exactly when a handle is
  null or the two vertices are the same one, and then the state is the one it
  was called on. Nothing else about the arguments is examined: in every other
  case, whether or not the two vertices lie on the boundary of the face, the
  call returns a new edge, and there is one edge more and one face more.
\<close>

theorem mef_rejects_bad_handles_only:
  "(fst (mef k a b f) = Inl InvalidArgument \<longleftrightarrow> a = None \<or> b = None \<or> f = None \<or> a = b) \<and>
   (fst (mef k a b f) = Inl InvalidArgument \<longrightarrow> snd (mef k a b f) = k) \<and>
   (a \<noteq> None \<and> b \<noteq> None \<and> f \<noteq> None \<and> a \<noteq> b \<longrightarrow>
      fst (mef k a b f) = Inr (length (estore k)) \<and>
      getEdgeCount (snd (mef k a b f)) = getEdgeCount k + 1 \<and>
      getFaceCount (snd (mef k a b f)) = getFaceCount k + 1 \<and>
      getVertexCount (snd (mef k a b f)) = getVertexCount k)"
proof -
  have bad: "(fst (mef k a b f) = Inl InvalidArgument \<longleftrightarrow>
        a = None \<or> b = None \<or> f = None \<or> a = b) \<and>
      (fst (mef k a b f) = Inl InvalidArgument \<longrightarrow> snd (mef k a b f) = k)"
    by (auto simp: mef_def alloc_edge_def alloc_face_def Let_def
          split: option.splits prod.splits)
  have good: "fst (mef k a b f) = Inr (length (estore k)) \<and>
      getEdgeCount (snd (mef k a b f)) = getEdgeCount k + 1 \<and>
      getFaceCount (snd (mef k a b f)) = getFaceCount k + 1 \<and>
      getVertexCount (snd (mef k a b f)) = getVertexCount k"
    if h: "a \<noteq> None" "b \<noteq> None" "f \<noteq> None" "a \<noteq> b"
  proof -
    from h obtain va vb fa where abf: "a = Some va" "b = Some vb" "f = Some fa" "va \<noteq> vb"
      by auto
    from mef_shape [OF abf(4), of k fa] obtain k1 where
      "mef k (Some va) (Some vb) (Some fa) = (Inr (length (estore k)), k1)"
      "vertices k1 = vertices k" "edges k1 = edges k @ [length (estore k)]"
      "faces k1 = faces k @ [length (fstore k)]"
      by blast
    then show ?thesis
      by (simp add: abf getEdgeCount_def getFaceCount_def getVertexCount_def)
  qed
  show ?thesis using bad good by blast
qed

text \<open>
  Test \<^verbatim>\<open>MEF_ThrowsOnSameVertex\<close> on the seed; and \<open>two_seeds\<close>, where \<^verbatim>\<open>mef\<close>
  joins the two vertices through face 0.
\<close>

theorem mef_rejects_bad_handles_only_witness:
  "fst (mef seed (Some 0) (Some 0) (Some 0)) = Inl InvalidArgument \<and>
   snd (mef seed (Some 0) (Some 0) (Some 0)) = seed \<and>
   fst (mef two_seeds (Some 0) (Some 1) (Some 0)) = Inr 0 \<and>
   getEdgeCount (snd (mef two_seeds (Some 0) (Some 1) (Some 0))) = 1 \<and>
   getFaceCount (snd (mef two_seeds (Some 0) (Some 1) (Some 0))) = 3 \<and>
   getVertexCount (snd (mef two_seeds (Some 0) (Some 1) (Some 0))) = 2"
proof -
  have n: "length (estore two_seeds) = 0" "getEdgeCount two_seeds = 0"
    "getFaceCount two_seeds = 2" "getVertexCount two_seeds = 2"
    by code_simp+
  show ?thesis
    using mef_rejects_bad_handles_only [of seed "Some 0" "Some 0" "Some 0"]
      mef_rejects_bad_handles_only [of two_seeds "Some 0" "Some 1" "Some 0"]
    by (simp add: n)
qed

text \<open>
  Claim C5 as stated fails. In \<open>two_seeds\<close> face 0 has no boundary at all, so
  vertices 0 and 1 are not on it; \<^verbatim>\<open>mef\<close> accepts them and adds edge 0 and
  face 2.
\<close>

theorem topology_violation_counterexample:
  "getFaceBoundary two_seeds (Some 0) = [] \<and>
   fst (mef two_seeds (Some 0) (Some 1) (Some 0)) = Inr 0 \<and>
   edges two_seeds = [] \<and> faces two_seeds = [0, 1] \<and>
   edges (snd (mef two_seeds (Some 0) (Some 1) (Some 0))) = [0] \<and>
   faces (snd (mef two_seeds (Some 0) (Some 1) (Some 0))) = [0, 1, 2]"
  by code_simp

text \<open>
  \<^verbatim>\<open>kef\<close> on a spur. In \<open>spur\<close> edge 0 was made by \<^verbatim>\<open>mev\<close> and has both slots on
  face 0. The guard of \<^verbatim>\<open>kef\<close>, whose message is "edge must be adjacent to two
  faces", tests that neither slot is null and lets the edge pass; the face
  merged away is then the surviving one, so the face \<^verbatim>\<open>kef\<close> returns, face 0,
  is erased from the faces, and vertex 0 and face 0 keep their references to
  the killed edge.
\<close>

lemma kef_on_spur:
  "f1 (estore spur ! 0) = Some 0 \<and> f2 (estore spur ! 0) = Some 0 \<and>
   fst (kef spur (Some 0)) = Inr 0 \<and>
   edges spur = [0] \<and> faces spur = [0] \<and>
   edges (snd (kef spur (Some 0))) = [] \<and> faces (snd (kef spur (Some 0))) = [] \<and>
   v_edge (vstore (snd (kef spur (Some 0))) ! 0) = Some 0 \<and>
   f_edge (fstore (snd (kef spur (Some 0))) ! 0) = Some 0"
  by code_simp

subsection \<open>The boundary walk of a face\<close>

declare gfb_loop.simps [simp del]
declare gie_loop.simps [simp del]

lemma gfb_loop_inv:
  "edge_ids k result = rev visited \<Longrightarrow> distinct visited \<Longrightarrow>
   length visited \<le> length (edges k) \<Longrightarrow>
   distinct (edge_ids k (gfb_loop k f s c visited result)) \<and>
   length (gfb_loop k f s c visited result) \<le> length (edges k) + 1"
proof (induction k f s c visited result rule: gfb_loop.induct)
  case (1 k f s c visited result)
  let ?i = "e_id (estore k ! c)"
  have len: "length result = length visited"
    using "1.prems"(1) by (metis edge_ids_def length_map length_rev)
  show ?case
  proof (cases "?i \<in> set visited")
    case True
    then show ?thesis
      using "1.prems" len by (simp add: gfb_loop.simps [of k f s c visited result])
  next
    case False
    have ids': "edge_ids k (result @ [c]) = rev (?i # visited)"
      using "1.prems"(1) by (simp add: edge_ids_def)
    have dist': "distinct (?i # visited)"
      using False "1.prems"(2) by simp
    have stop: "distinct (edge_ids k (result @ [c])) \<and>
                length (result @ [c]) \<le> length (edges k) + 1"
      using ids' dist' len "1.prems"(3) by (simp del: rev.simps distinct.simps)
    have step: "\<And>nxt. \<lbrakk>f1 (estore k ! c) = Some f \<or> f2 (estore k ! c) = Some f;
        (if f1 (estore k ! c) = Some f then n1_f1 (estore k ! c) else n2_f2 (estore k ! c))
          = Some nxt;
        \<not> length (edges k) < length (?i # visited); nxt \<noteq> s\<rbrakk>
      \<Longrightarrow> distinct (edge_ids k (gfb_loop k f s nxt (?i # visited) (result @ [c]))) \<and>
          length (gfb_loop k f s nxt (?i # visited) (result @ [c])) \<le> length (edges k) + 1"
      using "1.IH" [OF False refl refl refl] ids' dist' by simp
    show ?thesis
      using False stop step
      by (simp add: gfb_loop.simps [of k f s c visited result] Let_def
            split: option.splits del: rev.simps distinct.simps)
  qed
qed

text \<open>
  Claim C4 as the code has it. The list \<^verbatim>\<open>getFaceBoundary\<close> returns never holds
  an edge id twice, so an edge with both slots on the face is listed once, and
  it is never longer than the edge vector plus one.
\<close>

theorem face_boundary_lists_each_id_once:
  "distinct (edge_ids k (getFaceBoundary k f)) \<and>
   length (getFaceBoundary k f) \<le> getEdgeCount k + 1"
proof -
  have "\<And>a s. distinct (edge_ids k (gfb_loop k a s s [] [])) \<and>
              length (gfb_loop k a s s [] []) \<le> length (edges k) + 1"
    by (rule gfb_loop_inv) (simp_all add: edge_ids_def)
  then show ?thesis
    by (simp add: getFaceBoundary_def getEdgeCount_def edge_ids_def split: option.splits)
qed

text \<open>
  Claim C4 as stated fails after \<^verbatim>\<open>mvsf\<close> and one \<^verbatim>\<open>mev\<close>: face 0 is live,
  edge 0 has both slots on it, which the claim counts as two, and the walk
  returns the one-element list of edge 0.
\<close>

theorem face_boundary_spur_counterexample:
  "faces spur = [0] \<and> getFaceBoundary spur (Some 0) = [0] \<and>
   length (getFaceBoundary spur (Some 0)) = 1 \<and> face_slot_count spur 0 = 2"
  by code_simp

text \<open>
  After a second \<^verbatim>\<open>mev\<close>, from the far end of the first edge (test
  \<^verbatim>\<open>MEV_BuildsLineString\<close>), both edges have both slots on face 0 and the walk
  still returns edge 0 alone: \<^verbatim>\<open>mev\<close> hangs the new edge on \<^verbatim>\<open>n2_f2\<close> of the
  old one, and the walk of a face with \<^verbatim>\<open>f1\<close> on it only ever follows \<^verbatim>\<open>n1_f1\<close>.
\<close>

lemma face_boundary_line_string:
  "edges line_string = [0, 1] \<and> getFaceBoundary line_string (Some 0) = [0] \<and>
   face_slot_count line_string 0 = 4"
  by code_simp

subsection \<open>The walk round a vertex\<close>

lemma gie_loop_inv:
  "edge_ids k result = rev visited \<Longrightarrow> distinct visited \<Longrightarrow>
   length visited \<le> length (edges k) \<Longrightarrow>
   distinct (edge_ids k (gie_loop k v s c visited result)) \<and>
   length (gie_loop k v s c visited result) \<le> length (edges k) + 1"
proof (induction k v s c visited result rule: gie_loop.induct)
  case (1 k v s c visited result)
  let ?i = "e_id (estore k ! c)"
  have len: "length result = length visited"
    using "1.prems"(1) by (metis edge_ids_def length_map length_rev)
  show ?case
  proof (cases "?i \<in> set visited")
    case True
    then show ?thesis
      using "1.prems" len by (simp add: gie_loop.simps [of k v s c visited result])
  next
    case False
    have ids': "edge_ids k (result @ [c]) = rev (?i # visited)"
      using "1.prems"(1) by (simp add: edge_ids_def)
    have dist': "distinct (?i # visited)"
      using False "1.prems"(2) by simp
    have stop: "distinct (edge_ids k (result @ [c])) \<and>
                length (result @ [c]) \<le> length (edges k) + 1"
      using ids' dist' len "1.prems"(3) by (simp del: rev.simps distinct.simps)
    have step: "\<And>nxt. \<lbrakk>v1 (estore k ! c) = Some v \<or> v2 (estore k ! c) = Some v;
        (if v1 (estore k ! c) = Some v then n1_f1 (estore k ! c) else n2_f2 (estore k ! c))
          = Some nxt;
        \<not> length (edges k) < length (?i # visited); nxt \<noteq> s\<rbrakk>
      \<Longrightarrow> distinct (edge_ids k (gie_loop k v s nxt (?i # visited) (result @ [c]))) \<and>
          length (gie_loop k v s nxt (?i # visited) (result @ [c])) \<le> length (edges k) + 1"
      using "1.IH" [OF False refl refl refl] ids' dist' by simp
    show ?thesis
      using False stop step
      by (simp add: gie_loop.simps [of k v s c visited result] Let_def
            split: option.splits del: rev.simps distinct.simps)
  qed
qed

text \<open>
  Claim C7 as the code has it, for \<^verbatim>\<open>WingedEdgeKernel::getIncidentEdges\<close>. In
  every state, broken or not, and for every vertex handle the walk comes to an
  end: the loop body runs once per edge it returns, it returns no edge id
  twice and at most one edge more than the edge vector holds. What it hands
  back is always the list collected so far; no path through it throws.
\<close>

theorem incident_edges_walk_is_bounded:
  "distinct (edge_ids k (getIncidentEdges k v)) \<and>
   length (getIncidentEdges k v) \<le> getEdgeCount k + 1"
proof -
  have "\<And>a s. distinct (edge_ids k (gie_loop k a s s [] [])) \<and>
              length (gie_loop k a s s [] []) \<le> length (edges k) + 1"
    by (rule gie_loop_inv) (simp_all add: edge_ids_def)
  then show ?thesis
    by (simp add: getIncidentEdges_def getEdgeCount_def edge_ids_def split: option.splits)
qed

text \<open>
  Claim C7 as stated fails, since the walk has a third way out and no way to
  report. In the closed square the walk round vertex 2 starts at edge 1, goes
  on to edge 2 and to edge 0, which does not touch vertex 2, and returns the
  three of them. In \<open>star3_rewired\<close> the walk round vertex 0 meets edge 2 a
  second time after edges 0, 2, 1 and returns these three.
\<close>

theorem incident_edges_walk_counterexample:
  "getIncidentEdges closed_square (Some 2) = [1, 2, 0] \<and>
   v_edge (vstore closed_square ! 2) = Some 1 \<and>
   v1 (estore closed_square ! 0) = Some 0 \<and> v2 (estore closed_square ! 0) = Some 1 \<and>
   getIncidentEdges star3_rewired (Some 0) = [0, 2, 1] \<and>
   v1 (estore star3_rewired ! 1) = Some 0 \<and> n1_f1 (estore star3_rewired ! 1) = Some 2"
  by code_simp

section \<open>The states the operators lead to\<close>

text \<open>
  The hypotheses \<open>closed_store\<close> and \<open>pools_distinct\<close> of the theorems above hold
  in the empty kernel and are kept by \<^verbatim>\<open>mvsf\<close>, \<^verbatim>\<open>mev\<close>, \<^verbatim>\<open>mef\<close>, \<^verbatim>\<open>kef\<close> and
  \<^verbatim>\<open>kfmrh\<close> whenever the handles passed in point at objects that exist. They hold in
  every state the operators lead to.
\<close>

lemma fst_alloc [simp]:
  "fst (alloc_vertex k c) = length (vstore k)"
  "fst (alloc_edge k init) = length (estore k)"
  "fst (alloc_face k) = length (fstore k)"
  by (simp_all add: alloc_vertex_def alloc_edge_def alloc_face_def)

lemma alloc_simps [simp]:
  "vstore (snd (alloc_vertex k c)) = vstore k @ [new_Vertex (next_v_id k) c]"
  "estore (snd (alloc_vertex k c)) = estore k"
  "fstore (snd (alloc_vertex k c)) = fstore k"
  "vertices (snd (alloc_vertex k c)) = vertices k @ [length (vstore k)]"
  "edges (snd (alloc_vertex k c)) = edges k"
  "faces (snd (alloc_vertex k c)) = faces k"
  "vstore (snd (alloc_edge k init)) = vstore k"
  "estore (snd (alloc_edge k init)) = estore k @ [init (new_Edge (next_e_id k))]"
  "fstore (snd (alloc_edge k init)) = fstore k"
  "vertices (snd (alloc_edge k init)) = vertices k"
  "edges (snd (alloc_edge k init)) = edges k @ [length (estore k)]"
  "faces (snd (alloc_edge k init)) = faces k"
  "vstore (snd (alloc_face k)) = vstore k"
  "estore (snd (alloc_face k)) = estore k"
  "fstore (snd (alloc_face k)) = fstore k @ [new_Face (next_f_id k)]"
  "vertices (snd (alloc_face k)) = vertices k"
  "edges (snd (alloc_face k)) = edges k"
  "faces (snd (alloc_face k)) = faces k @ [length (fstore k)]"
  by (simp_all add: alloc_vertex_def alloc_edge_def alloc_face_def)

lemma ref_ok_simps [simp]: "ref_ok n None" "ref_ok n (Some a) = (a < n)"
  by (simp_all add: ref_ok_def)

lemma ref_ok_mono: "ref_ok n r \<Longrightarrow> n \<le> n' \<Longrightarrow> ref_ok n' r"
  by (cases r) auto

lemma edge_ok_mono:
  "edge_ok nv ne nf E \<Longrightarrow> nv \<le> nv' \<Longrightarrow> ne \<le> ne' \<Longrightarrow> nf \<le> nf' \<Longrightarrow> edge_ok nv' ne' nf' E"
  by (auto simp: edge_ok_def intro: ref_ok_mono)

lemma closed_store_alt:
  "closed_store k \<longleftrightarrow>
     (\<forall>a\<in>set (vertices k). a < length (vstore k)) \<and>
     (\<forall>a\<in>set (edges k). a < length (estore k)) \<and>
     (\<forall>a\<in>set (faces k). a < length (fstore k)) \<and>
     (\<forall>i<length (vstore k). ref_ok (length (estore k)) (v_edge (vstore k ! i))) \<and>
     (\<forall>i<length (estore k).
         edge_ok (length (vstore k)) (length (estore k)) (length (fstore k)) (estore k ! i)) \<and>
     (\<forall>i<length (fstore k). ref_ok (length (estore k)) (f_edge (fstore k ! i)))"
  unfolding closed_store_def Let_def list_all_iff
  by (simp add: all_set_conv_all_nth [of "vstore k"] all_set_conv_all_nth [of "estore k"]
        all_set_conv_all_nth [of "fstore k"])

lemma alloc_vertex_closed: "closed_store k \<Longrightarrow> closed_store (snd (alloc_vertex k c))"
  unfolding closed_store_alt
  by (auto simp: nth_append new_Vertex_def less_Suc_eq intro: edge_ok_mono)

lemma alloc_face_closed: "closed_store k \<Longrightarrow> closed_store (snd (alloc_face k))"
  unfolding closed_store_alt
  by (auto simp: nth_append new_Face_def less_Suc_eq intro: edge_ok_mono)

lemma alloc_edge_closed:
  "closed_store k \<Longrightarrow>
   edge_ok (length (vstore k)) (Suc (length (estore k))) (length (fstore k))
     (init (new_Edge (next_e_id k))) \<Longrightarrow>
   closed_store (snd (alloc_edge k init))"
  unfolding closed_store_alt
  by (auto simp: nth_append less_Suc_eq intro: edge_ok_mono ref_ok_mono)

lemma nth_upd: "j < length xs \<Longrightarrow> (xs[a := y]) ! j = (if a = j then y else xs ! j)"
  by auto

lemma upd_vertex_closed:
  "closed_store k \<Longrightarrow> ref_ok (length (estore k)) (v_edge (g (vstore k ! a))) \<Longrightarrow>
   closed_store (upd_vertex k a g)"
  unfolding closed_store_alt by (auto simp: nth_upd)

lemma upd_edge_closed:
  "closed_store k \<Longrightarrow>
   edge_ok (length (vstore k)) (length (estore k)) (length (fstore k)) (g (estore k ! a)) \<Longrightarrow>
   closed_store (upd_edge k a g)"
  unfolding closed_store_alt by (auto simp: nth_upd)

lemma upd_face_closed:
  "closed_store k \<Longrightarrow> ref_ok (length (estore k)) (f_edge (g (fstore k ! a))) \<Longrightarrow>
   closed_store (upd_face k a g)"
  unfolding closed_store_alt by (auto simp: nth_upd)

lemma closed_nth:
  assumes "closed_store k"
  shows "i < length (vstore k) \<Longrightarrow> ref_ok (length (estore k)) (v_edge (vstore k ! i))"
    and "j < length (estore k) \<Longrightarrow>
           edge_ok (length (vstore k)) (length (estore k)) (length (fstore k)) (estore k ! j)"
    and "l < length (fstore k) \<Longrightarrow> ref_ok (length (estore k)) (f_edge (fstore k ! l))"
  using assms by (simp_all add: closed_store_alt)

lemma mvsf_closed: "closed_store k \<Longrightarrow> closed_store (snd (mvsf k c))"
  by (simp add: mvsf_def split_def alloc_vertex_closed alloc_face_closed)


lemma sizes_upd [simp]:
  "length (vstore (if b then upd_vertex k a g else k)) = length (vstore k)"
  "length (estore (if b then upd_vertex k a g else k)) = length (estore k)"
  "length (fstore (if b then upd_vertex k a g else k)) = length (fstore k)"
  "length (vstore (if b then upd_face k a h else k)) = length (vstore k)"
  "length (estore (if b then upd_face k a h else k)) = length (estore k)"
  "length (fstore (if b then upd_face k a h else k)) = length (fstore k)"
  by simp_all

lemma mev_closed:
  assumes c: "closed_store k" and u: "u < length (vstore k)" and f: "f < length (fstore k)"
  shows "closed_store (snd (mev k (Some u) p (Some f)))"
proof -
  let ?w = "length (vstore k)" and ?e = "length (estore k)"
  define k1 where "k1 = snd (alloc_vertex k p)"
  define k2 where
    "k2 = snd (alloc_edge k1 (\<lambda>E. E\<lparr>v1 := Some u, v2 := Some ?w, f1 := Some f, f2 := Some f\<rparr>))"
  define k3 where
    "k3 = (if v_edge (vstore k2 ! u) = None
           then upd_vertex k2 u (\<lambda>V. V\<lparr>v_edge := Some ?e\<rparr>) else k2)"
  define k4 where "k4 = upd_vertex k3 ?w (\<lambda>V. V\<lparr>v_edge := Some ?e\<rparr>)"
  define k5 where
    "k5 = (if f_edge (fstore k4 ! f) = None
           then upd_face k4 f (\<lambda>F. F\<lparr>f_edge := Some ?e\<rparr>) else k4)"
  have c1: "closed_store k1" "length (vstore k1) = Suc ?w" "length (estore k1) = ?e"
      "length (fstore k1) = length (fstore k)"
    unfolding k1_def using c by (simp_all add: alloc_vertex_closed)
  have c2: "closed_store k2" "length (vstore k2) = Suc ?w" "length (estore k2) = Suc ?e"
      "length (fstore k2) = length (fstore k)"
    unfolding k2_def using c1 u f
    by (simp_all add: alloc_edge_closed edge_ok_def new_Edge_def)
  have c3: "closed_store k3" "length (vstore k3) = Suc ?w" "length (estore k3) = Suc ?e"
      "length (fstore k3) = length (fstore k)"
    unfolding k3_def using c2 by (simp_all add: upd_vertex_closed)
  have c4: "closed_store k4" "length (vstore k4) = Suc ?w" "length (estore k4) = Suc ?e"
      "length (fstore k4) = length (fstore k)"
    unfolding k4_def using c3 by (simp_all add: upd_vertex_closed)
  have c5: "closed_store k5" "length (vstore k5) = Suc ?w" "length (estore k5) = Suc ?e"
      "length (fstore k5) = length (fstore k)"
    unfolding k5_def using c4 by (simp_all add: upd_face_closed)
  have e5: "edge_ok (Suc ?w) (Suc ?e) (length (fstore k)) (estore k5 ! j)" if "j < Suc ?e" for j
    using closed_nth(2) [OF c5(1), of j] that c5 by simp
  have prev_ok: "prev < Suc ?e" if "v_edge (vstore k5 ! u) = Some prev" for prev
    using closed_nth(1) [OF c5(1), of u] u that c5 by simp
  define k6 where
    "k6 = (case v_edge (vstore k5 ! u) of
               None \<Rightarrow> k5
             | Some prev_edge \<Rightarrow>
                 if prev_edge = ?e then
                   upd_edge k5 ?e (\<lambda>E. E\<lparr>p1_f1 := Some ?e, n1_f1 := Some ?e,
                                          p2_f2 := Some ?e, n2_f2 := Some ?e\<rparr>)
                 else
                   (let k5a = upd_edge k5 ?e
                                (\<lambda>E. E\<lparr>p1_f1 := Some prev_edge,
                                       n1_f1 := n1_f1 (estore k5 ! prev_edge)\<rparr>);
                        k5b = (if v2 (estore k5a ! prev_edge) = Some u
                               then upd_edge k5a prev_edge (\<lambda>E. E\<lparr>n2_f2 := Some ?e\<rparr>)
                               else upd_edge k5a prev_edge (\<lambda>E. E\<lparr>n1_f1 := Some ?e\<rparr>))
                    in upd_edge k5b ?e (\<lambda>E. E\<lparr>p2_f2 := Some ?e, n2_f2 := Some ?e\<rparr>)))"
  have run: "snd (mev k (Some u) p (Some f)) = k6"
    unfolding k6_def k5_def k4_def k3_def k2_def k1_def
    by (simp add: mev_def split_def Let_def cong: option.case_cong if_cong)
  have c6: "closed_store k6"
  proof (cases "v_edge (vstore k5 ! u)")
    case None
    then show ?thesis using c5 by (simp add: k6_def)
  next
    case (Some prev)
    note pv = prev_ok [OF Some]
    show ?thesis
    proof (cases "prev = ?e")
      case True
      have "closed_store (upd_edge k5 ?e (\<lambda>E. E\<lparr>p1_f1 := Some ?e, n1_f1 := Some ?e,
                                          p2_f2 := Some ?e, n2_f2 := Some ?e\<rparr>))"
        using e5 [of ?e] by (intro upd_edge_closed c5) (simp add: edge_ok_def c5)
      then show ?thesis using Some True by (simp add: k6_def)
    next
      case False
      define a where "a = upd_edge k5 ?e (\<lambda>E. E\<lparr>p1_f1 := Some prev,
                                       n1_f1 := n1_f1 (estore k5 ! prev)\<rparr>)"
      define b where "b = (if v2 (estore a ! prev) = Some u
                then upd_edge a prev (\<lambda>E. E\<lparr>n2_f2 := Some ?e\<rparr>)
                else upd_edge a prev (\<lambda>E. E\<lparr>n1_f1 := Some ?e\<rparr>))"
      have ca: "closed_store a" "length (vstore a) = Suc ?w" "length (estore a) = Suc ?e"
        "length (fstore a) = length (fstore k)"
        unfolding a_def using e5 [of ?e] e5 [of prev] pv c5
        by (simp_all add: upd_edge_closed edge_ok_def)
      have ea: "edge_ok (Suc ?w) (Suc ?e) (length (fstore k)) (estore a ! j)" if "j < Suc ?e" for j
        using closed_nth(2) [OF ca(1), of j] that ca by simp
      have okp: "edge_ok (length (vstore a)) (length (estore a)) (length (fstore a))
                   ((estore a ! prev)\<lparr>n2_f2 := Some ?e\<rparr>)"
           "edge_ok (length (vstore a)) (length (estore a)) (length (fstore a))
                   ((estore a ! prev)\<lparr>n1_f1 := Some ?e\<rparr>)"
        using ea [of prev] pv ca by (simp_all add: edge_ok_def)
      have cb: "closed_store b" "length (vstore b) = Suc ?w" "length (estore b) = Suc ?e"
        "length (fstore b) = length (fstore k)"
        unfolding b_def
        using ca
          upd_edge_closed [where k = a and a = prev and g = "\<lambda>E. E\<lparr>n2_f2 := Some ?e\<rparr>",
                           OF ca(1) okp(1)]
          upd_edge_closed [where k = a and a = prev and g = "\<lambda>E. E\<lparr>n1_f1 := Some ?e\<rparr>",
                           OF ca(1) okp(2)]
        by simp_all
      have eb: "edge_ok (Suc ?w) (Suc ?e) (length (fstore k)) (estore b ! j)" if "j < Suc ?e" for j
        using closed_nth(2) [OF cb(1), of j] that cb by simp
      have cc: "closed_store (upd_edge b ?e (\<lambda>E. E\<lparr>p2_f2 := Some ?e, n2_f2 := Some ?e\<rparr>))"
        using eb [of ?e] cb by (simp add: upd_edge_closed edge_ok_def)
      have "k6 = upd_edge b ?e (\<lambda>E. E\<lparr>p2_f2 := Some ?e, n2_f2 := Some ?e\<rparr>)"
        unfolding k6_def a_def b_def using Some False by (simp add: Let_def)
      then show ?thesis using cc by simp
    qed
  qed
  show ?thesis using c6 run by simp
qed


lemma alloc_edge_face_closed:
  "closed_store k \<Longrightarrow>
   edge_ok (length (vstore k)) (Suc (length (estore k))) (Suc (length (fstore k)))
     (init (new_Edge (next_e_id k))) \<Longrightarrow>
   closed_store (snd (alloc_face (snd (alloc_edge k init))))"
  unfolding closed_store_alt
  by (auto simp: nth_append new_Face_def less_Suc_eq intro: edge_ok_mono ref_ok_mono)

lemma mef_closed:
  assumes c: "closed_store k" and va: "va < length (vstore k)" and vb: "vb < length (vstore k)"
    and f: "f < length (fstore k)"
  shows "closed_store (snd (mef k (Some va) (Some vb) (Some f)))"
proof (cases "va = vb")
  case True
  then show ?thesis using c by (simp add: mef_def)
next
  case False
  let ?e = "length (estore k)" and ?nf = "length (fstore k)"
  define k2 where
    "k2 = snd (alloc_face (snd (alloc_edge k
            (\<lambda>E. E\<lparr>v1 := Some va, v2 := Some vb, f1 := Some f, f2 := Some ?nf\<rparr>))))"
  define k3 where "k3 = upd_face k2 ?nf (\<lambda>F. F\<lparr>f_edge := Some ?e\<rparr>)"
  define k4 where
    "k4 = (case v_edge (vstore k3 ! va) of
             None \<Rightarrow> k3
           | Some x \<Rightarrow> upd_edge k3 ?e (\<lambda>E. E\<lparr>p1_f1 := Some x, n1_f1 := Some x\<rparr>))"
  define k5 where
    "k5 = (case v_edge (vstore k4 ! vb) of
             None \<Rightarrow> k4
           | Some x \<Rightarrow> upd_edge k4 ?e (\<lambda>E. E\<lparr>p2_f2 := Some x, n2_f2 := Some x\<rparr>))"
  have run: "snd (mef k (Some va) (Some vb) (Some f)) = k5"
    unfolding k5_def k4_def k3_def k2_def using False
    by (simp add: mef_def split_def Let_def cong: option.case_cong if_cong)
  have c2: "closed_store k2" "length (vstore k2) = length (vstore k)"
      "length (estore k2) = Suc ?e" "length (fstore k2) = Suc ?nf"
    unfolding k2_def using c va vb f
    by (simp_all add: alloc_edge_face_closed edge_ok_def new_Edge_def)
  have c3: "closed_store k3" "length (vstore k3) = length (vstore k)"
      "length (estore k3) = Suc ?e" "length (fstore k3) = Suc ?nf"
    unfolding k3_def using c2 by (simp_all add: upd_face_closed)
  have c4: "closed_store k4" "length (vstore k4) = length (vstore k)"
      "length (estore k4) = Suc ?e" "length (fstore k4) = Suc ?nf"
  proof -
    show "closed_store k4"
    proof (cases "v_edge (vstore k3 ! va)")
      case None
      then show ?thesis using c3 by (simp add: k4_def)
    next
      case (Some x)
      have x: "x < Suc ?e" using closed_nth(1) [OF c3(1), of va] va c3 Some by simp
      have "edge_ok (length (vstore k3)) (length (estore k3)) (length (fstore k3))
              ((estore k3 ! ?e)\<lparr>p1_f1 := Some x, n1_f1 := Some x\<rparr>)"
        using closed_nth(2) [OF c3(1), of ?e] c3 x by (simp add: edge_ok_def)
      then show ?thesis
        using upd_edge_closed [where k = k3 and a = ?e
                and g = "\<lambda>E. E\<lparr>p1_f1 := Some x, n1_f1 := Some x\<rparr>", OF c3(1)] Some
        by (simp add: k4_def)
    qed
  qed (simp_all add: k4_def c3 split: option.splits)
  have c5: "closed_store k5"
  proof (cases "v_edge (vstore k4 ! vb)")
    case None
    then show ?thesis using c4 by (simp add: k5_def)
  next
    case (Some x)
    have x: "x < Suc ?e" using closed_nth(1) [OF c4(1), of vb] vb c4 Some by simp
    have "edge_ok (length (vstore k4)) (length (estore k4)) (length (fstore k4))
            ((estore k4 ! ?e)\<lparr>p2_f2 := Some x, n2_f2 := Some x\<rparr>)"
      using closed_nth(2) [OF c4(1), of ?e] c4 x by (simp add: edge_ok_def)
    then show ?thesis
      using upd_edge_closed [where k = k4 and a = ?e
              and g = "\<lambda>E. E\<lparr>p2_f2 := Some x, n2_f2 := Some x\<rparr>", OF c4(1)] Some
      by (simp add: k5_def)
  qed
  show ?thesis using c5 run by simp
qed

lemma sweep_closed:
  "closed_store k \<Longrightarrow> a < length (fstore k) \<Longrightarrow> \<forall>x\<in>set xs. x < length (estore k) \<Longrightarrow>
   closed_store (fold (\<lambda>x s. upd_edge s x (rewrite_face b a)) xs k)"
proof (induction xs arbitrary: k)
  case Nil
  then show ?case by simp
next
  case (Cons x xs)
  have "edge_ok (length (vstore k)) (length (estore k)) (length (fstore k))
          (rewrite_face b a (estore k ! x))"
    using closed_nth(2) [OF Cons.prems(1), of x] Cons.prems(2,3)
    by (simp add: edge_ok_def rewrite_face_def Let_def)
  then have "closed_store (upd_edge k x (rewrite_face b a))"
    by (rule upd_edge_closed [OF Cons.prems(1)])
  then show ?case
    using Cons.prems by (simp add: Cons.IH)
qed

lemma kef_closed:
  assumes c: "closed_store k" and e: "e < length (estore k)"
  shows "closed_store (snd (kef k (Some e)))"
proof (cases "f1 (estore k ! e)")
  case None
  then show ?thesis using c by (simp add: kef_def)
next
  case a: (Some a)
  show ?thesis
  proof (cases "f2 (estore k ! e)")
    case None
    then show ?thesis using c a by (simp add: kef_def)
  next
    case b: (Some b)
    let ?k1 = "k\<lparr>edges := removeAll e (edges k)\<rparr>"
    let ?k2 = "fold (\<lambda>x s. upd_edge s x (rewrite_face b a)) (removeAll e (edges k)) ?k1"
    have a_ok: "a < length (fstore k)"
      using closed_nth(2) [OF c e] a by (simp add: edge_ok_def)
    have c1: "closed_store ?k1"
      using c by (auto simp: closed_store_alt)
    have c2: "closed_store ?k2"
      using c1 a_ok c by (intro sweep_closed) (auto simp: closed_store_alt)
    have "closed_store (?k2\<lparr>faces := removeAll b (faces ?k2)\<rparr>)"
      using c2 sweep_other_fields [of "rewrite_face b a" "removeAll e (edges k)" ?k1]
      by (auto simp: closed_store_alt)
    then show ?thesis using a b by (simp add: kef_def Let_def)
  qed
qed

lemma mvsf_pools:
  "closed_store k \<Longrightarrow> pools_distinct k \<Longrightarrow> pools_distinct (snd (mvsf k c))"
  by (auto simp: pools_distinct_def mvsf_def split_def closed_store_alt)

lemma mev_pools:
  "vertices (snd (mev k (Some u) p (Some f))) = vertices k @ [length (vstore k)] \<and>
   edges (snd (mev k (Some u) p (Some f))) = edges k @ [length (estore k)] \<and>
   faces (snd (mev k (Some u) p (Some f))) = faces k"
  by (simp add: mev_def split_def Let_def split: option.splits)

lemma mef_pools:
  "va \<noteq> vb \<Longrightarrow>
   vertices (snd (mef k (Some va) (Some vb) (Some f))) = vertices k \<and>
   edges (snd (mef k (Some va) (Some vb) (Some f))) = edges k @ [length (estore k)] \<and>
   faces (snd (mef k (Some va) (Some vb) (Some f))) = faces k @ [length (fstore k)]"
  by (simp add: mef_def split_def Let_def split: option.splits)

lemma kef_pools:
  "pools_distinct k \<Longrightarrow> pools_distinct (snd (kef k (Some e)))"
  using sweep_other_fields [of _ "removeAll e (edges k)" "k\<lparr>edges := removeAll e (edges k)\<rparr>"]
  by (auto simp: kef_def Let_def pools_distinct_def distinct_removeAll split: option.splits)

lemma gfb_loop_in_store:
  "closed_store k \<Longrightarrow> c < length (estore k) \<Longrightarrow> \<forall>x\<in>set result. x < length (estore k) \<Longrightarrow>
   \<forall>x\<in>set (gfb_loop k f s c visited result). x < length (estore k)"
proof (induction k f s c visited result rule: gfb_loop.induct)
  case (1 k f s c visited result)
  let ?i = "e_id (estore k ! c)"
  have ok: "edge_ok (length (vstore k)) (length (estore k)) (length (fstore k)) (estore k ! c)"
    using closed_nth(2) [OF "1.prems"(1,2)] .
  have here: "\<forall>x\<in>set (result @ [c]). x < length (estore k)"
    using "1.prems" by simp
  have step: "\<And>nxt. \<lbrakk>?i \<notin> set visited;
        f1 (estore k ! c) = Some f \<or> f2 (estore k ! c) = Some f;
        (if f1 (estore k ! c) = Some f then n1_f1 (estore k ! c) else n2_f2 (estore k ! c))
          = Some nxt;
        \<not> length (edges k) < length (?i # visited); nxt \<noteq> s\<rbrakk>
      \<Longrightarrow> \<forall>x\<in>set (gfb_loop k f s nxt (?i # visited) (result @ [c])). x < length (estore k)"
  proof -
    fix nxt
    assume a: "?i \<notin> set visited" "f1 (estore k ! c) = Some f \<or> f2 (estore k ! c) = Some f"
      "(if f1 (estore k ! c) = Some f then n1_f1 (estore k ! c) else n2_f2 (estore k ! c))
          = Some nxt"
      "\<not> length (edges k) < length (?i # visited)" "nxt \<noteq> s"
    have "nxt < length (estore k)"
      using ok a(3) by (auto simp: edge_ok_def split: if_splits)
    then show "\<forall>x\<in>set (gfb_loop k f s nxt (?i # visited) (result @ [c])). x < length (estore k)"
      using "1.IH" [OF a(1) refl refl refl a(2,3,4,5) "1.prems"(1)] here by blast
  qed
  show ?case
    using "1.prems"(3) here step
    by (simp add: gfb_loop.simps [of k f s c visited result] Let_def split: option.splits)
qed

lemma kfmrh_closed:
  assumes c: "closed_store k" and h: "h < length (fstore k)" and o: "outer < length (fstore k)"
  shows "closed_store (snd (kfmrh k (Some h) (Some outer)))"
proof -
  let ?k1 = "k\<lparr>faces := removeAll h (faces k)\<rparr>"
  have c1: "closed_store ?k1"
    using c by (auto simp: closed_store_alt)
  have walk: "\<forall>x\<in>set (getFaceBoundary ?k1 (Some h)). x < length (estore ?k1)"
  proof (cases "f_edge (fstore ?k1 ! h)")
    case None
    then show ?thesis by (simp add: getFaceBoundary_def)
  next
    case (Some s)
    have "s < length (estore ?k1)"
      using closed_nth(3) [OF c1, of h] h Some by simp
    then have "\<forall>x\<in>set (gfb_loop ?k1 h s s [] []). x < length (estore ?k1)"
      by (intro gfb_loop_in_store c1) simp_all
    then show ?thesis using Some by (simp add: getFaceBoundary_def)
  qed
  have "closed_store (fold (\<lambda>x s. upd_edge s x (rewrite_face h outer))
                        (getFaceBoundary ?k1 (Some h)) ?k1)"
    using o by (intro sweep_closed c1 walk) simp
  then show ?thesis by (simp add: kfmrh_def Let_def)
qed

lemma kfmrh_pools:
  "pools_distinct k \<Longrightarrow> pools_distinct (snd (kfmrh k (Some h) (Some outer)))"
  using sweep_other_fields [of _ "getFaceBoundary (k\<lparr>faces := removeAll h (faces k)\<rparr>) (Some h)"
          "k\<lparr>faces := removeAll h (faces k)\<rparr>"]
  by (simp add: kfmrh_def Let_def pools_distinct_def distinct_removeAll)

lemma fresh_addresses:
  "closed_store k \<Longrightarrow>
   length (vstore k) \<notin> set (vertices k) \<and> length (estore k) \<notin> set (edges k) \<and>
   length (fstore k) \<notin> set (faces k)"
  by (auto simp: closed_store_alt)

text \<open>Every state reached by the five operators is closed and holds no object twice.\<close>

theorem euler_reachable_invariant:
  "euler_reachable k \<Longrightarrow> closed_store k \<and> pools_distinct k"
proof (induction rule: euler_reachable.induct)
  case start
  show ?case by (simp add: closed_store_def pools_distinct_def empty_kernel_def)
next
  case (by_mvsf k c)
  then show ?case by (simp add: mvsf_closed mvsf_pools)
next
  case (by_mev k u f p)
  have "closed_store (snd (mev k (Some u) p (Some f)))"
    using by_mev by (simp add: mev_closed)
  moreover have "pools_distinct (snd (mev k (Some u) p (Some f)))"
    using by_mev.IH fresh_addresses [of k] mev_pools [of k u p f]
    by (simp add: pools_distinct_def)
  ultimately show ?case by simp
next
  case (by_mef k a b f)
  show ?case
  proof (cases "a = b")
    case True
    then show ?thesis using by_mef by (simp add: mef_def)
  next
    case False
    have "closed_store (snd (mef k (Some a) (Some b) (Some f)))"
      using by_mef by (simp add: mef_closed)
    moreover have "pools_distinct (snd (mef k (Some a) (Some b) (Some f)))"
      using by_mef.IH fresh_addresses [of k] mef_pools [OF False, of k f]
      by (simp add: pools_distinct_def)
    ultimately show ?thesis by simp
  qed
next
  case (by_kef k e)
  then show ?case by (simp add: kef_closed kef_pools)
next
  case (by_kfmrh k h outer)
  then show ?case by (simp add: kfmrh_closed kfmrh_pools)
qed

section \<open>Properties of the polygon facade\<close>

subsection \<open>The lookup and the first loop\<close>

lemma first_match_append:
  "first_match es i a b = Some e \<Longrightarrow> first_match (es @ es') i a b = Some e"
  by (induction es arbitrary: i) (auto split: if_splits)

lemma first_match_Some:
  "first_match es i a b = Some e \<Longrightarrow>
   i \<le> e \<and> e < i + length es \<and> edge_joins (es ! (e - i)) a b"
proof (induction es arbitrary: i)
  case Nil
  then show ?case by simp
next
  case (Cons E es)
  show ?case
  proof (cases "edge_joins E a b")
    case True
    with Cons.prems show ?thesis by simp
  next
    case False
    with Cons.prems have "first_match es (Suc i) a b = Some e" by simp
    from Cons.IH [OF this] show ?thesis by (auto simp: Suc_diff_le)
  qed
qed

lemma first_match_None:
  "first_match es i a b = None \<longleftrightarrow> \<not> has_edge es a b"
  by (induction es arbitrary: i) (auto simp: has_edge_def)

lemma edge_joins_sym: "edge_joins E a b = edge_joins E b a"
  by (auto simp: edge_joins_def)

lemma set_edge_if_unset_fields [simp]:
  "m_edges (set_edge_if_unset m a e) = m_edges m"
  "m_faces (set_edge_if_unset m a e) = m_faces m"
  by (simp_all add: set_edge_if_unset_def)

lemma add_edge_shape:
  "add_edge m a b = (Inr e, m') \<Longrightarrow>
   e = length (m_edges m) \<and> m_edges m' = m_edges m @ [new_MEdge a b] \<and> m_faces m' = m_faces m"
  by (auto simp: add_edge_def Let_def split: option.splits if_splits)

lemma collect_edges_props:
  "collect_edges mc verts is acc = (Inr fe, m1) \<Longrightarrow>
   m_faces m1 = m_faces mc \<and>
   (\<exists>new. m_edges m1 = m_edges mc @ new \<and>
          (\<forall>E\<in>set new. \<not> has_edge (m_edges mc) (m_v1 E) (m_v2 E))) \<and>
   length fe = length acc + length is \<and> take (length acc) fe = acc \<and>
   (\<forall>j<length is. \<forall>e.
      first_match (m_edges mc) 0 (verts ! (is ! j)) (verts ! ((is ! j + 1) mod length verts))
        = Some e \<longrightarrow> fe ! (length acc + j) = e)"
proof (induction "is" arbitrary: mc acc)
  case Nil
  then show ?case by simp
next
  case (Cons i "is")
  let ?a = "verts ! i" and ?b = "verts ! ((i + 1) mod length verts)"
  show ?case
  proof (cases "first_match (m_edges mc) 0 ?a ?b")
    case (Some x)
    with Cons.prems have run: "collect_edges mc verts is (acc @ [x]) = (Inr fe, m1)"
      by (simp add: Let_def)
    note ih = Cons.IH [OF run]
    have tk: "take (Suc (length acc)) fe = acc @ [x]" using ih by simp
    have acc: "take (length acc) fe = acc"
      using arg_cong [OF tk, of "take (length acc)"] by (simp add: min_def)
    have here: "fe ! length acc = x"
      using arg_cong [OF tk, of "\<lambda>xs. xs ! length acc"] by (simp add: nth_append)
    have later: "\<forall>j<length (i # is). \<forall>e.
      first_match (m_edges mc) 0 (verts ! ((i # is) ! j))
         (verts ! (((i # is) ! j + 1) mod length verts)) = Some e
        \<longrightarrow> fe ! (length acc + j) = e"
    proof (intro allI impI)
      fix j e assume j: "j < length (i # is)"
        and m: "first_match (m_edges mc) 0 (verts ! ((i # is) ! j))
         (verts ! (((i # is) ! j + 1) mod length verts)) = Some e"
      show "fe ! (length acc + j) = e"
      proof (cases j)
        case 0
        with m Some here show ?thesis by simp
      next
        case (Suc j')
        with j m ih show ?thesis by simp
      qed
    qed
    show ?thesis using ih acc later by simp
  next
    case None
    with Cons.prems obtain x m' where
      ae: "add_edge mc ?a ?b = (Inr x, m')" and
      run: "collect_edges m' verts is (acc @ [x]) = (Inr fe, m1)"
      by (auto simp: Let_def split: prod.splits sum.splits)
    note ih = Cons.IH [OF run]
    have sh: "x = length (m_edges mc)" "m_edges m' = m_edges mc @ [new_MEdge ?a ?b]"
      "m_faces m' = m_faces mc"
      using add_edge_shape [OF ae] by simp_all
    have nohe: "\<not> has_edge (m_edges mc) ?a ?b"
      using None by (simp add: first_match_None)
    obtain new where new: "m_edges m1 = m_edges m' @ new"
      "\<forall>E\<in>set new. \<not> has_edge (m_edges m') (m_v1 E) (m_v2 E)"
      using ih by blast
    have mono: "\<And>p q. has_edge (m_edges mc) p q \<Longrightarrow> has_edge (m_edges m') p q"
      by (auto simp: has_edge_def sh)
    have news: "m_edges m1 = m_edges mc @ (new_MEdge ?a ?b # new) \<and>
        (\<forall>E\<in>set (new_MEdge ?a ?b # new). \<not> has_edge (m_edges mc) (m_v1 E) (m_v2 E))"
      using new nohe mono by (auto simp: sh new_MEdge_def)
    have tk: "take (Suc (length acc)) fe = acc @ [x]" using ih by simp
    have acc: "take (length acc) fe = acc"
      using arg_cong [OF tk, of "take (length acc)"] by (simp add: min_def)
    have later: "\<forall>j<length (i # is). \<forall>e.
      first_match (m_edges mc) 0 (verts ! ((i # is) ! j))
         (verts ! (((i # is) ! j + 1) mod length verts)) = Some e
        \<longrightarrow> fe ! (length acc + j) = e"
    proof (intro allI impI)
      fix j e assume j: "j < length (i # is)"
        and m: "first_match (m_edges mc) 0 (verts ! ((i # is) ! j))
         (verts ! (((i # is) ! j + 1) mod length verts)) = Some e"
      show "fe ! (length acc + j) = e"
      proof (cases j)
        case 0
        with m None show ?thesis by simp
      next
        case (Suc j')
        have "first_match (m_edges m') 0 (verts ! (is ! j'))
           (verts ! ((is ! j' + 1) mod length verts)) = Some e"
          using m Suc by (simp add: sh first_match_append)
        with j Suc ih show ?thesis by simp
      qed
    qed
    show ?thesis using ih acc later news sh by simp
  qed
qed


subsection \<open>The second loop\<close>

lemma wire_slot_ends [simp]:
  "m_v1 (wire_slot f n p E) = m_v1 E" "m_v2 (wire_slot f n p E) = m_v2 E"
  by (simp_all add: wire_slot_def)

lemma wire_slot_takes_free_slot: "takes_free_slot f E (wire_slot f n p E)"
  by (simp add: wire_slot_def takes_free_slot_def)

lemma update_keeps_ends:
  "m_v1 ((xs[c := wire_slot f n p (xs ! c)]) ! j) = m_v1 (xs ! j) \<and>
   m_v2 ((xs[c := wire_slot f n p (xs ! c)]) ! j) = m_v2 (xs ! j)"
  by (cases "c < length xs") (auto simp: nth_list_update list_update_beyond)

lemma wire_edges_frame:
  "length (m_edges (wire_edges m f fe is)) = length (m_edges m) \<and>
   m_faces (wire_edges m f fe is) = m_faces m \<and>
   m_vertices (wire_edges m f fe is) = m_vertices m \<and>
   m_v1 (m_edges (wire_edges m f fe is) ! j) = m_v1 (m_edges m ! j) \<and>
   m_v2 (m_edges (wire_edges m f fe is) ! j) = m_v2 (m_edges m ! j)"
  by (induction "is" arbitrary: m) (simp_all add: Let_def update_keeps_ends)

lemma takes_free_slot_trans:
  "takes_free_slot f E0 E1 \<Longrightarrow> takes_free_slot f E1 E2 \<or> E2 = E1 \<Longrightarrow> takes_free_slot f E0 E2"
  by (auto simp: takes_free_slot_def split: if_splits)

lemma wire_edges_slot:
  "e < length (m_edges m) \<Longrightarrow>
   (if e \<in> (\<lambda>i. fe ! i) ` set is
    then takes_free_slot f (m_edges m ! e) (m_edges (wire_edges m f fe is) ! e)
    else m_edges (wire_edges m f fe is) ! e = m_edges m ! e)"
proof (induction "is" arbitrary: m)
  case Nil
  then show ?case by simp
next
  case (Cons i "is")
  let ?cur = "fe ! i"
  let ?E' = "wire_slot f (fe ! ((i + 1) mod length fe)) (fe ! ((i + length fe - 1) mod length fe))
               (m_edges m ! ?cur)"
  let ?m1 = "m\<lparr>m_edges := (m_edges m)[?cur := ?E']\<rparr>"
  have unfold: "wire_edges m f fe (i # is) = wire_edges ?m1 f fe is"
    by (simp add: Let_def)
  have len: "e < length (m_edges ?m1)" using Cons.prems by simp
  note ih = Cons.IH [OF len]
  show ?case
  proof (cases "?cur = e")
    case True
    have first: "takes_free_slot f (m_edges m ! e) (m_edges ?m1 ! e)"
      using True Cons.prems wire_slot_takes_free_slot [of f "m_edges m ! e"] by simp
    have rest: "takes_free_slot f (m_edges ?m1 ! e) (m_edges (wire_edges ?m1 f fe is) ! e) \<or>
        m_edges (wire_edges ?m1 f fe is) ! e = m_edges ?m1 ! e"
      using ih by (auto split: if_splits)
    have "takes_free_slot f (m_edges m ! e) (m_edges (wire_edges m f fe (i # is)) ! e)"
      unfolding unfold by (rule takes_free_slot_trans [OF first rest])
    then show ?thesis using True by simp
  next
    case False
    then have same: "m_edges ?m1 ! e = m_edges m ! e" by simp
    show ?thesis
      using False ih unfolding unfold same by auto
  qed
qed

subsection \<open>Shared edges\<close>

text \<open>
  What one call of \<^verbatim>\<open>add_face\<close> does with a pair of consecutive vertices that an
  edge of the mesh already joins, in either order of the endpoints. The lookup
  finds an edge \<open>e\<close> that was in the mesh before the call; \<open>e\<close> still joins the
  pair afterwards and none of the edges the call has added does, so no edge was
  made for the pair; the new face is in the left slot of \<open>e\<close> if that was empty
  and otherwise in the right slot, with the left one as it was.
\<close>

lemma add_face_reuse:
  assumes "add_face m verts = (Inr f, m')" and "i < length verts"
    and "has_edge (m_edges m) (verts ! i) (verts ! ((i + 1) mod length verts))"
  shows "\<exists>e. first_match (m_edges m) 0 (verts ! i) (verts ! ((i + 1) mod length verts)) = Some e \<and>
           e < length (m_edges m) \<and>
           edge_joins (m_edges m' ! e) (verts ! i) (verts ! ((i + 1) mod length verts)) \<and>
           (\<forall>j. length (m_edges m) \<le> j \<and> j < length (m_edges m') \<longrightarrow>
                \<not> edge_joins (m_edges m' ! j) (verts ! i) (verts ! ((i + 1) mod length verts))) \<and>
           f = length (m_faces m) \<and>
           takes_free_slot f (m_edges m ! e) (m_edges m' ! e)"
proof -
  let ?a = "verts ! i" and ?b = "verts ! ((i + 1) mod length verts)"
  let ?n = "length verts"
  obtain fe m1 where
    run: "collect_edges m verts [0..<?n] [] = (Inr fe, m1)"
    and f: "f = length (m_faces m1)"
    and m': "m' = wire_edges (m1\<lparr>m_faces := m_faces m1 @ [\<lparr>face_edge = Some (fe ! 0)\<rparr>]\<rparr>)
                    f fe [0..<length fe]"
    using assms(1)
    by (auto simp: add_face_def Let_def split: if_splits prod.splits sum.splits)
  let ?m2 = "m1\<lparr>m_faces := m_faces m1 @ [\<lparr>face_edge = Some (fe ! 0)\<rparr>]\<rparr>"
  obtain e where e: "first_match (m_edges m) 0 ?a ?b = Some e"
    using assms(3) first_match_None [of "m_edges m" 0 ?a ?b] by (cases "first_match (m_edges m) 0 ?a ?b") auto
  have e_old: "e < length (m_edges m)" "edge_joins (m_edges m ! e) ?a ?b"
    using first_match_Some [OF e] by simp_all
  note cp = collect_edges_props [OF run]
  obtain new where new: "m_edges m1 = m_edges m @ new"
    "\<forall>E\<in>set new. \<not> has_edge (m_edges m) (m_v1 E) (m_v2 E)"
    using cp by blast
  have len_fe: "length fe = ?n" using cp by simp
  have fe_i: "fe ! i = e"
    using cp assms(2) e by simp
  have faces: "f = length (m_faces m)" using f cp by simp
  have e_m2: "e < length (m_edges ?m2)" "m_edges ?m2 ! e = m_edges m ! e"
    using e_old new by (simp_all add: nth_append)
  have e_in: "e \<in> (\<lambda>i. fe ! i) ` set [0..<length fe]"
    using fe_i assms(2) len_fe by force
  have slot: "takes_free_slot f (m_edges m ! e) (m_edges m' ! e)"
    using wire_edges_slot [OF e_m2(1), of fe "[0..<length fe]" f] e_in e_m2(2) m' by simp
  have ends: "\<And>j. m_v1 (m_edges m' ! j) = m_v1 (m_edges m1 ! j) \<and>
                  m_v2 (m_edges m' ! j) = m_v2 (m_edges m1 ! j)"
    using wire_edges_frame [of ?m2 f fe "[0..<length fe]"] m' by simp
  have len: "length (m_edges m') = length (m_edges m1)"
    using wire_edges_frame [of ?m2 f fe "[0..<length fe]"] m' by simp
  have joins: "edge_joins (m_edges m' ! e) ?a ?b"
    using e_old e_m2(2) ends [of e] by (simp add: edge_joins_def)
  have fresh: "\<not> edge_joins (m_edges m' ! j) ?a ?b"
    if j: "length (m_edges m) \<le> j" "j < length (m_edges m')" for j
  proof
    assume jn: "edge_joins (m_edges m' ! j) ?a ?b"
    have "m_edges m1 ! j \<in> set new"
      using j len new by (simp add: nth_append)
    then have no: "\<not> has_edge (m_edges m) (m_v1 (m_edges m1 ! j)) (m_v2 (m_edges m1 ! j))"
      using new by blast
    have he: "has_edge (m_edges m) ?a ?b" "has_edge (m_edges m) ?b ?a"
      using assms(3) by (auto simp: has_edge_def edge_joins_def)
    from jn ends [of j] have
      "(m_v1 (m_edges m1 ! j) = ?a \<and> m_v2 (m_edges m1 ! j) = ?b) \<or>
       (m_v1 (m_edges m1 ! j) = ?b \<and> m_v2 (m_edges m1 ! j) = ?a)"
      by (simp add: edge_joins_def)
    with no he show False by auto
  qed
  show ?thesis
    using e e_old(1) joins fresh faces slot by blast
qed

text \<open>
  Claim C9 as the code has it. Let \<^verbatim>\<open>add_face\<close> succeed on a vertex list whose
  \<open>i\<close>-th pair of consecutive vertices is already joined by an edge of the mesh,
  in either order of the endpoints. Then the call makes no edge for the pair
  but reuses the edge \<open>e\<close> that the lookup finds, and when \<open>e\<close> has a free face
  slot the new face is recorded in the first free one: in the left slot when
  that was empty, and in the right slot, with the left one as it was, when only
  the right slot was empty. So an edge that carried one face ends with both
  slots occupied.
\<close>

theorem add_face_reuses_existing_edge:
  assumes "add_face m verts = (Inr f, m')" and "i < length verts"
    and "has_edge (m_edges m) (verts ! i) (verts ! ((i + 1) mod length verts))"
  shows "\<exists>e. first_match (m_edges m) 0 (verts ! i) (verts ! ((i + 1) mod length verts)) = Some e \<and>
           e < length (m_edges m) \<and>
           edge_joins (m_edges m' ! e) (verts ! i) (verts ! ((i + 1) mod length verts)) \<and>
           (\<forall>j. length (m_edges m) \<le> j \<and> j < length (m_edges m') \<longrightarrow>
                \<not> edge_joins (m_edges m' ! j) (verts ! i) (verts ! ((i + 1) mod length verts))) \<and>
           f = length (m_faces m) \<and>
           (left_face (m_edges m ! e) = None \<longrightarrow> left_face (m_edges m' ! e) = Some f) \<and>
           (left_face (m_edges m ! e) \<noteq> None \<and> right_face (m_edges m ! e) = None \<longrightarrow>
              left_face (m_edges m' ! e) = left_face (m_edges m ! e) \<and>
              right_face (m_edges m' ! e) = Some f)"
proof -
  from add_face_reuse [OF assms] obtain e where
    e: "first_match (m_edges m) 0 (verts ! i) (verts ! ((i + 1) mod length verts)) = Some e"
      "e < length (m_edges m)"
      "edge_joins (m_edges m' ! e) (verts ! i) (verts ! ((i + 1) mod length verts))"
      "\<forall>j. length (m_edges m) \<le> j \<and> j < length (m_edges m') \<longrightarrow>
          \<not> edge_joins (m_edges m' ! j) (verts ! i) (verts ! ((i + 1) mod length verts))"
      "f = length (m_faces m)"
    and slot: "takes_free_slot f (m_edges m ! e) (m_edges m' ! e)"
    by blast
  have s: "left_face (m_edges m ! e) = None \<longrightarrow> left_face (m_edges m' ! e) = Some f"
    "left_face (m_edges m ! e) \<noteq> None \<and> right_face (m_edges m ! e) = None \<longrightarrow>
       left_face (m_edges m' ! e) = left_face (m_edges m ! e) \<and>
       right_face (m_edges m' ! e) = Some f"
    using slot by (auto simp: takes_free_slot_def)
  show ?thesis
    by (rule exI [of _ e]) (intro conjI e s)
qed

text \<open>
  Test \<^verbatim>\<open>SharedEdge\<close>: the second triangle \<open>v1 v4 v2\<close> closes with the pair
  \<open>(v2, v1)\<close>, which edge 0 of the first triangle joins the other way round.
  Edge 0 carries face 0 on the left and nothing on the right. The mesh ends
  with five edges, and edge 0 with face 0 on the left and the new face 1 on the
  right.
\<close>

theorem add_face_reuses_existing_edge_witness:
  "add_face one_triangle [Some 0, Some 3, Some 1]
     = (Inr 1, snd (add_face one_triangle [Some 0, Some 3, Some 1])) \<and>
   2 < length [Some (0::nat), Some 3, Some 1] \<and>
   has_edge (m_edges one_triangle) (Some 1) (Some 0) \<and>
   first_match (m_edges one_triangle) 0 (Some 1) (Some 0) = Some 0 \<and>
   left_face (m_edges one_triangle ! 0) = Some 0 \<and>
   right_face (m_edges one_triangle ! 0) = None \<and>
   length (m_edges (snd (add_face one_triangle [Some 0, Some 3, Some 1]))) = 5 \<and>
   left_face (m_edges (snd (add_face one_triangle [Some 0, Some 3, Some 1])) ! 0) = Some 0 \<and>
   right_face (m_edges (snd (add_face one_triangle [Some 0, Some 3, Some 1])) ! 0) = Some 1"
proof -
  let ?vs = "[Some (0::nat), Some 3, Some 1]"
  let ?m' = "snd (add_face one_triangle ?vs)"
  have h1: "add_face one_triangle ?vs = (Inr 1, ?m')" by code_simp
  have h2: "2 < length ?vs" by simp
  have h3: "has_edge (m_edges one_triangle) (?vs ! 2) (?vs ! ((2 + 1) mod length ?vs))"
    by code_simp
  have n: "left_face (m_edges one_triangle ! 0) = Some 0"
    "right_face (m_edges one_triangle ! 0) = None" "length (m_edges ?m') = 5"
    "has_edge (m_edges one_triangle) (Some 1) (Some 0)"
    "first_match (m_edges one_triangle) 0 (Some 1) (Some 0) = Some 0"
    by code_simp+
  have vs: "?vs ! 2 = Some 1" "?vs ! ((2 + 1) mod length ?vs) = Some 0"
    by simp_all
  obtain e where e: "first_match (m_edges one_triangle) 0 (Some 1) (Some 0) = Some e"
    and slot: "left_face (m_edges one_triangle ! e) \<noteq> None \<and>
        right_face (m_edges one_triangle ! e) = None \<longrightarrow>
        left_face (m_edges ?m' ! e) = left_face (m_edges one_triangle ! e) \<and>
        right_face (m_edges ?m' ! e) = Some 1"
    using add_face_reuses_existing_edge [OF h1 h2 h3, unfolded vs] by blast
  have e0: "e = 0" using e n(5) by simp
  have "left_face (m_edges ?m' ! 0) = Some 0" "right_face (m_edges ?m' ! 0) = Some 1"
    using slot n(1,2) unfolding e0 by simp_all
  then show ?thesis
    using h1 n by simp
qed

text \<open>
  Claim C9 as stated fails when the edge has no free slot. In \<open>two_triangles\<close>
  edge 0 joins vertices 0 and 1 and carries face 0 on the left and face 1 on
  the right. The third triangle \<open>v0 v1 v4\<close> lists the pair again; \<^verbatim>\<open>add_face\<close>
  reuses edge 0 and, the left slot being taken, writes the new face 2 into the
  right slot, where face 1 was.
\<close>

theorem add_face_third_face_counterexample:
  "has_edge (m_edges two_triangles) (Some 0) (Some 1) \<and>
   first_match (m_edges two_triangles) 0 (Some 0) (Some 1) = Some 0 \<and>
   left_face (m_edges two_triangles ! 0) = Some 0 \<and>
   right_face (m_edges two_triangles ! 0) = Some 1 \<and>
   fst (add_face two_triangles [Some 0, Some 1, Some 4]) = Inr 2 \<and>
   left_face (m_edges fan_of_three ! 0) = Some 0 \<and>
   right_face (m_edges fan_of_three ! 0) = Some 2 \<and>
   length (m_edges two_triangles) = 5 \<and> length (m_edges fan_of_three) = 7"
  by code_simp

subsection \<open>The walk round a vertex of the facade\<close>

text \<open>On the single triangle the walk round vertex 0 returns, with edge 0 alone.\<close>

lemma get_incident_edges_one_triangle:
  "get_incident_edges one_triangle 0 = Some [0]"
proof -
  have start: "m_edge (m_vertices one_triangle ! 0) = Some 0"
    "m_v1 (m_edges one_triangle ! 0) = Some 0" "right_next (m_edges one_triangle ! 0) = None"
    by code_simp+
  have "incident_loop one_triangle 0 0 0 [] = Some [0]"
    by (subst incident_loop.simps) (simp add: start seek_from_v1.simps)
  then show ?thesis
    by (simp add: get_incident_edges_def start)
qed

text \<open>
  In \<open>three_faces\<close> the edges 0, 1, 2 of the first triangle do not touch vertex 3
  and follow one another through \<^verbatim>\<open>left_next\<close>.
\<close>

lemma three_faces_cycle:
  "m_v1 (m_edges three_faces ! 0) = Some 0" "m_v2 (m_edges three_faces ! 0) = Some 1"
  "left_next (m_edges three_faces ! 0) = Some 1"
  "m_v1 (m_edges three_faces ! Suc 0) = Some 1" "m_v2 (m_edges three_faces ! Suc 0) = Some 2"
  "left_next (m_edges three_faces ! Suc 0) = Some 2"
  "m_v1 (m_edges three_faces ! 2) = Some 2" "m_v2 (m_edges three_faces ! 2) = Some 0"
  "left_next (m_edges three_faces ! 2) = Some 0"
  by code_simp+

lemma seek_never_returns:
  "seek_from_v1 m this current = Some r \<Longrightarrow>
   \<not> (m = three_faces \<and> this = 3 \<and> current \<in> {Some 0, Some 1, Some 2})"
proof (induction arbitrary: r rule: seek_from_v1.raw_induct [rotated 1, consumes 1])
  case (1 seek m this current r)
  show ?case
  proof
    assume a: "m = three_faces \<and> this = 3 \<and> current \<in> {Some 0, Some 1, Some 2}"
    then consider "current = Some 0" | "current = Some 1" | "current = Some 2" by auto
    then show False
    proof cases
      case 1
      with a "1.hyps" have "seek three_faces 3 (Some 1) = Some r"
        by (simp add: three_faces_cycle)
      from "1.IH" [OF this] show False by simp
    next
      case 2
      with a "1.hyps" have "seek three_faces 3 (Some 2) = Some r"
        by (simp add: three_faces_cycle)
      from "1.IH" [OF this] show False by simp
    next
      case 3
      with a "1.hyps" have "seek three_faces 3 (Some 0) = Some r"
        by (simp add: three_faces_cycle)
      from "1.IH" [OF this] show False by simp
    qed
  qed
qed

text \<open>
  \<^verbatim>\<open>Vertex::get_incident_edges\<close> does not return on vertex 3 of \<open>three_faces\<close>,
  a mesh made by three calls of \<^verbatim>\<open>add_face\<close>: from edge 3 the walk goes to
  \<^verbatim>\<open>right_next\<close>, edge 0, and the inner loop then circles through edges 0, 1, 2.
\<close>

theorem get_incident_edges_runs_forever:
  "length (m_faces three_faces) = 3 \<and> m_edge (m_vertices three_faces ! 3) = Some 3 \<and>
   get_incident_edges three_faces 3 = None"
proof -
  have start: "m_edge (m_vertices three_faces ! 3) = Some 3"
    "m_v1 (m_edges three_faces ! 3) = Some 3" "right_next (m_edges three_faces ! 3) = Some 0"
    "length (m_faces three_faces) = 3"
    by code_simp+
  have "seek_from_v1 three_faces 3 (Some 0) = None"
    using seek_never_returns [of three_faces 3 "Some 0"]
    by (cases "seek_from_v1 three_faces 3 (Some 0)") auto
  then have "incident_loop three_faces 3 3 3 [] = None"
    by (subst incident_loop.simps) (simp add: start)
  then show ?thesis
    by (simp add: get_incident_edges_def start)
qed

section \<open>Properties of the face normals\<close>

subsection \<open>NaN and the infinities in the operations\<close>

lemma round_to_not_nan [simp]: "round_to fmt x \<noteq> NaN"
  by (simp add: round_to_def)

lemma nan_absorbs [simp]:
  "dadd fmt a NaN = NaN" "dadd fmt NaN b = NaN"
  "dmul fmt a NaN = NaN" "dmul fmt NaN b = NaN"
  "ddiv fmt a NaN = NaN" "ddiv fmt NaN b = NaN"
  by (cases a; simp)+

lemma dgt_zero_cases:
  "dgt d (Fin 0) \<longleftrightarrow> d = PInf \<or> (\<exists>l. d = Fin l \<and> 0 < l)"
  by (cases d) auto

lemma vec_length_nan:
  "has_nan v \<Longrightarrow> vec_length fmt v = NaN"
  by (cases v) (auto simp: has_nan_def is_nan_def vec_length_def)

lemma ddiv_fin_not_nan:
  "dgt d (Fin 0) \<Longrightarrow> ddiv fmt (Fin a) d \<noteq> NaN"
  by (auto simp: dgt_zero_cases)

text \<open>
  Unless a component of the vector is an infinity, \<^verbatim>\<open>normalized\<close> returns no
  NaN: a NaN among the components makes the length NaN, the test \<^verbatim>\<open>len > 0\<close>
  fails and the zero vector is returned; finite components divided by a length
  that is greater than zero are finite or infinite.
\<close>

lemma normalized_no_nan:
  assumes "\<not> has_inf v"
  shows "\<not> has_nan (normalized fmt v)"
proof (cases "dgt (vec_length fmt v) (Fin 0)")
  case False
  then show ?thesis
    by (simp add: normalized_def has_nan_def is_nan_def)
next
  case True
  then have "vec_length fmt v \<noteq> NaN" by auto
  then have nn: "\<not> has_nan v" using vec_length_nan by blast
  obtain p q r where v: "v = Vec3 p q r" by (cases v)
  from nn assms v obtain a b c where pqr: "p = Fin a" "q = Fin b" "r = Fin c"
    by (cases p; cases q; cases r) (auto simp: has_nan_def has_inf_def is_nan_def is_inf_def)
  show ?thesis
    using True ddiv_fin_not_nan [OF True]
    by (simp add: normalized_def Let_def vec_div_def has_nan_def is_nan_def v pqr)
qed

text \<open>
  With an infinite component and no NaN the length is \<open>+inf\<close> and the infinite
  component, divided by it, is NaN. That needs of the format only that it
  keeps the sign.
\<close>

lemma round_to_nonneg:
  assumes "keeps_sign fmt" "0 \<le> x"
  shows "round_to fmt x = PInf \<or> (\<exists>s. round_to fmt x = Fin s \<and> 0 \<le> s)"
proof -
  have "0 \<le> rnd fmt x" "0 \<le> big fmt"
    using assms by (simp_all add: keeps_sign_def)
  then show ?thesis by (simp add: round_to_def)
qed

lemma square_cases:
  "keeps_sign fmt \<Longrightarrow> d \<noteq> NaN \<Longrightarrow>
   dmul fmt d d = PInf \<or> (\<exists>s. dmul fmt d d = Fin s \<and> 0 \<le> s)"
  by (cases d) (simp_all add: round_to_nonneg)

lemma square_inf: "is_inf d \<Longrightarrow> dmul fmt d d = PInf"
  by (auto simp: is_inf_def)

lemma dadd_nonneg_cases:
  "keeps_sign fmt \<Longrightarrow>
   a = PInf \<or> (\<exists>s. a = Fin s \<and> 0 \<le> s) \<Longrightarrow> b = PInf \<or> (\<exists>s. b = Fin s \<and> 0 \<le> s) \<Longrightarrow>
   (dadd fmt a b = PInf \<or> (\<exists>s. dadd fmt a b = Fin s \<and> 0 \<le> s)) \<and>
   (a = PInf \<or> b = PInf \<longrightarrow> dadd fmt a b = PInf)"
  by (cases a; cases b) (simp_all add: round_to_nonneg)

lemma vec_length_inf:
  assumes "keeps_sign fmt" "has_inf v" "\<not> has_nan v"
  shows "vec_length fmt v = PInf"
proof -
  obtain p q r where v: "v = Vec3 p q r" by (cases v)
  have nn: "p \<noteq> NaN" "q \<noteq> NaN" "r \<noteq> NaN"
    using assms(3) by (auto simp: v has_nan_def is_nan_def)
  note sp = square_cases [OF assms(1) nn(1)] and sq = square_cases [OF assms(1) nn(2)]
    and sr = square_cases [OF assms(1) nn(3)]
  have one: "dmul fmt p p = PInf \<or> dmul fmt q q = PInf \<or> dmul fmt r r = PInf"
    using assms(2) square_inf by (auto simp: v has_inf_def)
  note pq = dadd_nonneg_cases [OF assms(1) sp sq]
  note pqr = dadd_nonneg_cases [OF assms(1) conjunct1 [OF pq] sr]
  have "dadd fmt (dadd fmt (dmul fmt p p) (dmul fmt q q)) (dmul fmt r r) = PInf"
    using one pq pqr by blast
  then show ?thesis by (simp add: vec_length_def v)
qed

lemma normalized_of_infinite:
  assumes "keeps_sign fmt" "has_inf v" "\<not> has_nan v"
  shows "has_nan (normalized fmt v)"
proof -
  have len: "vec_length fmt v = PInf" by (rule vec_length_inf [OF assms])
  have "\<And>d. is_inf d \<Longrightarrow> ddiv fmt d PInf = NaN" by (auto simp: is_inf_def)
  then show ?thesis
    using assms(2) by (auto simp: normalized_def len vec_div_def has_nan_def has_inf_def is_nan_def)
qed

lemma keeps_sign_exact64: "keeps_sign exact64"
  by (simp add: keeps_sign_def exact64_def)

subsection \<open>The format of the concrete runs\<close>

lemma big_exact64: "2 ^ 1023 \<le> big exact64" "big exact64 < 2 ^ 1024"
proof -
  have a: "(2::real) ^ 1023 = 2 ^ 52 * 2 ^ 971" "(2::real) ^ 1024 = 2 ^ 53 * 2 ^ 971"
    by (simp_all add: power_add [symmetric])
  have b: "(2::real) ^ 52 \<le> 2 ^ 53 - 1" "(2::real) ^ 53 - 1 < 2 ^ 53" by simp_all
  have c: "(0::real) < 2 ^ 971" by simp
  show "2 ^ 1023 \<le> big exact64"
    unfolding a exact64_def using mult_right_mono [OF b(1), of "2 ^ 971"] c
    by (simp del: power_numeral)
  show "big exact64 < 2 ^ 1024"
    unfolding a exact64_def using mult_strict_right_mono [OF b(2) c]
    by (simp del: power_numeral)
qed

lemma round_to_exact64:
  "\<bar>x\<bar> \<le> 2 ^ 1023 \<Longrightarrow> round_to exact64 x = Fin x"
  "2 ^ 1024 \<le> x \<Longrightarrow> round_to exact64 x = PInf"
  using big_exact64 by (auto simp: round_to_def exact64_def)

lemma round_to_exact64_small [simp]:
  "\<bar>x\<bar> \<le> 4 \<Longrightarrow> round_to exact64 x = Fin x"
proof -
  assume "\<bar>x\<bar> \<le> 4"
  moreover have "(4::real) \<le> 2 ^ 1023"
    using power_increasing [of 2 1023 "2::real"] by simp
  ultimately show ?thesis by (simp add: round_to_exact64)
qed

lemma round_to_exact64_large [simp]:
  "round_to exact64 (2 ^ 600) = Fin (2 ^ 600)" "round_to exact64 (- (2 ^ 600)) = Fin (- (2 ^ 600))"
  "round_to exact64 (2 ^ 1200) = PInf"
proof -
  have "(2::real) ^ 600 \<le> 2 ^ 1023" by (rule power_increasing) simp_all
  then show "round_to exact64 (2 ^ 600) = Fin (2 ^ 600)"
    "round_to exact64 (- (2 ^ 600)) = Fin (- (2 ^ 600))"
    by (simp_all add: round_to_exact64 del: power_numeral)
  have "(2::real) ^ 1024 \<le> 2 ^ 1200" by (rule power_increasing) simp_all
  then show "round_to exact64 (2 ^ 1200) = PInf"
    by (rule round_to_exact64(2))
qed

subsection \<open>\<^verbatim>\<open>Vec3::normalized\<close>\<close>

text \<open>
  Claim C10 as the code has it, for every format and every vector. When the
  computed length is greater than zero the result is the vector divided by it,
  component by component, and the divisor is not zero; otherwise, that is when
  the length is zero or NaN, the result is the zero vector. Unless a component
  of the vector is an infinity, no component of the result is NaN. In a format
  that keeps the sign, the result has a NaN component exactly when the vector
  has an infinite component and no NaN component.
\<close>

theorem normalized_divides_by_positive_length:
  "(dgt (vec_length fmt v) (Fin 0) \<longrightarrow>
      normalized fmt v = vec_div fmt v (vec_length fmt v) \<and> vec_length fmt v \<noteq> Fin 0) \<and>
   (\<not> dgt (vec_length fmt v) (Fin 0) \<longrightarrow> normalized fmt v = Vec3 (Fin 0) (Fin 0) (Fin 0)) \<and>
   (\<not> has_inf v \<longrightarrow> \<not> has_nan (normalized fmt v)) \<and>
   (keeps_sign fmt \<longrightarrow> (has_nan (normalized fmt v) \<longleftrightarrow> has_inf v \<and> \<not> has_nan v))"
proof -
  have a: "dgt (vec_length fmt v) (Fin 0) \<longrightarrow>
      normalized fmt v = vec_div fmt v (vec_length fmt v) \<and> vec_length fmt v \<noteq> Fin 0"
    by (auto simp: normalized_def Let_def)
  have b: "\<not> dgt (vec_length fmt v) (Fin 0) \<longrightarrow> normalized fmt v = Vec3 (Fin 0) (Fin 0) (Fin 0)"
    by (simp add: normalized_def Let_def)
  have c: "\<not> has_inf v \<longrightarrow> \<not> has_nan (normalized fmt v)"
    using normalized_no_nan by blast
  have d: "has_nan (normalized fmt v) \<longleftrightarrow> has_inf v \<and> \<not> has_nan v" if ks: "keeps_sign fmt"
  proof
    assume n: "has_nan (normalized fmt v)"
    then have i: "has_inf v" using normalized_no_nan by blast
    have "\<not> has_nan v"
    proof
      assume "has_nan v"
      then have "vec_length fmt v = NaN" by (rule vec_length_nan)
      then have "normalized fmt v = Vec3 (Fin 0) (Fin 0) (Fin 0)"
        by (simp add: normalized_def)
      with n show False by (simp add: has_nan_def is_nan_def)
    qed
    with i show "has_inf v \<and> \<not> has_nan v" by simp
  next
    assume "has_inf v \<and> \<not> has_nan v"
    then show "has_nan (normalized fmt v)"
      using normalized_of_infinite [OF ks] by blast
  qed
  show ?thesis using a b c d by blast
qed

text \<open>
  In \<open>exact64\<close>: \<open>(0, 0, 2)\<close> has length 2 and comes back as \<open>(0, 0, 1)\<close>; the zero
  vector has length zero and comes back as it is; \<open>(+inf, 0, 0)\<close> comes back
  with a NaN.
\<close>

theorem normalized_divides_by_positive_length_witness:
  "dgt (vec_length exact64 (vec 0 0 2)) (Fin 0) \<and>
   normalized exact64 (vec 0 0 2) = vec 0 0 1 \<and>
   \<not> dgt (vec_length exact64 (vec 0 0 0)) (Fin 0) \<and>
   normalized exact64 (vec 0 0 0) = vec 0 0 0 \<and>
   \<not> has_inf (vec 0 0 2) \<and> \<not> has_nan (normalized exact64 (vec 0 0 2)) \<and>
   keeps_sign exact64 \<and> has_inf (Vec3 PInf (Fin 0) (Fin 0)) \<and>
   \<not> has_nan (Vec3 PInf (Fin 0) (Fin 0)) \<and>
   has_nan (normalized exact64 (Vec3 PInf (Fin 0) (Fin 0)))"
proof -
  have l2: "vec_length exact64 (vec 0 0 2) = Fin 2"
    by (simp add: vec_length_def)
  have l0: "vec_length exact64 (vec 0 0 0) = Fin 0"
    by (simp add: vec_length_def)
  have d2: "vec_div exact64 (vec 0 0 2) (Fin 2) = vec 0 0 1"
    by (simp add: vec_div_def)
  have fin: "\<not> has_inf (vec 0 0 2)" "has_inf (Vec3 PInf (Fin 0) (Fin 0))"
    "\<not> has_nan (Vec3 PInf (Fin 0) (Fin 0))"
    by (simp_all add: has_inf_def has_nan_def is_inf_def is_nan_def)
  show ?thesis
    using normalized_divides_by_positive_length [of exact64 "vec 0 0 2"]
      normalized_divides_by_positive_length [of exact64 "vec 0 0 0"]
      normalized_divides_by_positive_length [of exact64 "Vec3 PInf (Fin 0) (Fin 0)"]
      keeps_sign_exact64
    by (simp add: l2 l0 d2 fin) (simp add: has_nan_def is_nan_def)
qed

text \<open>The squares of \<open>2^600\<close> and of an infinity.\<close>

lemma normalized_overflow:
  "vec_length exact64 (vec (2 ^ 600) 0 0) = PInf"
  "normalized exact64 (vec (2 ^ 600) 0 0) = vec 0 0 0"
  by (simp_all add: normalized_def vec_length_def vec_div_def power_add [symmetric]
        del: power_numeral)

text \<open>In every format that rounds zero to zero, \<open>(inf, 0, 0)\<close> comes back with a NaN.\<close>

lemma normalized_infinite_any_format:
  "rnd fmt 0 = 0 \<Longrightarrow> 0 \<le> big fmt \<Longrightarrow>
   normalized fmt (Vec3 PInf (Fin 0) (Fin 0)) = Vec3 NaN (Fin 0) (Fin 0)"
  by (simp add: normalized_def vec_length_def vec_div_def round_to_def)

text \<open>
  Claim C10 as stated fails on a vector with an infinite component:
  \<open>inf * inf + 0 * 0 + 0 * 0\<close> is \<open>inf\<close>, its square root is \<open>inf\<close>, the test
  \<^verbatim>\<open>len > 0\<close> passes, and \<open>inf / inf\<close> is NaN. It fails too on a finite vector
  that is too long: the square of \<open>2^600\<close> is beyond the range, so the length of
  \<open>(2^600, 0, 0)\<close> is \<open>inf\<close>, and a finite value divided by \<open>inf\<close> is zero; the
  vector comes back as the zero vector.
\<close>

theorem normalized_infinite_counterexample:
  "vec_length exact64 (Vec3 PInf (Fin 0) (Fin 0)) = PInf \<and>
   normalized exact64 (Vec3 PInf (Fin 0) (Fin 0)) = Vec3 NaN (Fin 0) (Fin 0) \<and>
   vec_length exact64 (vec (2 ^ 600) 0 0) = PInf \<and>
   normalized exact64 (vec (2 ^ 600) 0 0) = vec 0 0 0"
  using normalized_overflow
  by (simp add: normalized_def vec_length_def vec_div_def del: power_numeral)

subsection \<open>The length of a normalized vector\<close>


























subsection \<open>Newell's sum without rounding\<close>







text \<open>The sum round the polygon is the same from any corner.\<close>

lemma cyclic_shift_sum:
  fixes g :: "nat \<Rightarrow> int"
  shows "(\<Sum>i<n. g (Suc i mod n)) = (\<Sum>i<n. g i)"
proof (cases n)
  case 0
  then show ?thesis by simp
next
  case (Suc k)
  have "(\<Sum>i<Suc k. g (Suc i mod Suc k)) = (\<Sum>i<k. g (Suc i mod Suc k)) + g (Suc k mod Suc k)"
    by simp
  also have "(\<Sum>i<k. g (Suc i mod Suc k)) = (\<Sum>i<k. g (Suc i))"
    by (rule sum.cong) simp_all
  also have "g (Suc k mod Suc k) = g 0" by simp
  also have "(\<Sum>i<k. g (Suc i)) + g 0 = (\<Sum>i<Suc k. g i)"
    using sum.lessThan_Suc_shift [of g k] by simp
  finally show ?thesis using Suc by simp
qed

text \<open>
  \<open>twice_area\<close> is the shoelace sum: the products \<open>x_i * y_i\<close> cancel round the
  polygon.
\<close>

lemma twice_area_shoelace:
  "twice_area pts =
     (\<Sum>i<length pts. fst (pts ! i) * snd (pts ! (Suc i mod length pts)) -
                        fst (pts ! (Suc i mod length pts)) * snd (pts ! i))"
proof -
  let ?n = "length pts"
  let ?g = "\<lambda>i. fst (pts ! i) * snd (pts ! i)"
  have "twice_area pts = (\<Sum>i<?n. newell_term pts i)"
    by (simp add: twice_area_def interv_sum_list_conv_sum_set_nat atLeast0LessThan)
  also have "\<dots> = (\<Sum>i<?n. (fst (pts ! i) * snd (pts ! (Suc i mod ?n)) -
                        fst (pts ! (Suc i mod ?n)) * snd (pts ! i)) + (?g i - ?g (Suc i mod ?n)))"
    by (rule sum.cong) (simp_all add: newell_term_def algebra_simps)
  also have "\<dots> = (\<Sum>i<?n. fst (pts ! i) * snd (pts ! (Suc i mod ?n)) -
                        fst (pts ! (Suc i mod ?n)) * snd (pts ! i)) +
                   ((\<Sum>i<?n. ?g i) - (\<Sum>i<?n. ?g (Suc i mod ?n)))"
    by (simp add: sum.distrib sum_subtractf)
  also have "(\<Sum>i<?n. ?g (Suc i mod ?n)) = (\<Sum>i<?n. ?g i)"
    by (rule cyclic_shift_sum)
  finally show ?thesis by simp
qed

subsection \<open>The concrete faces\<close>







subsection \<open>The cached normal\<close>




end
